theory Spec2Isabelle
  imports Complex_Main "HOL-Library.Finite_Map" "HOL-Library.Char_ord"
    "HOL-Library.List_Lexorder" "HOL-Library.Log_Nat"
begin

section \<open>Calendar conditions (scheduler/condition.go)\<close>

text \<open>
  The four fields of a \<^verbatim>\<open>Condition\<close> are Go maps with boolean values
  (\<^verbatim>\<open>map[time.Month]bool\<close> and so on).  A Go map is a finite map; reading a key that
  is absent yields the zero value \<^verbatim>\<open>false\<close>, and \<^verbatim>\<open>len\<close> counts the keys.
\<close>

type_synonym boolmap = "(int, bool) fmap"

definition len_map :: "boolmap \<Rightarrow> nat" where
  "len_map m = fcard (fmdom m)"

definition index_map :: "boolmap \<Rightarrow> int \<Rightarrow> bool" where
  "index_map m k = (case fmlookup m k of None \<Rightarrow> False | Some b \<Rightarrow> b)"

record Condition =
  Months :: boolmap
  Weekdays :: boolmap
  Days :: boolmap
  Hours :: boolmap

text \<open>
  \<^verbatim>\<open>Satisfied\<close> reads a \<^verbatim>\<open>time.Time\<close> only through \<^verbatim>\<open>Month()\<close>, \<^verbatim>\<open>Weekday()\<close>,
  \<^verbatim>\<open>Day()\<close> and \<^verbatim>\<open>Hour()\<close>; a moment is modelled by these four calendar fields.
\<close>

record moment =
  Month :: int
  Weekday :: int
  Day :: int
  Hour :: int

definition Satisfied :: "Condition \<Rightarrow> moment \<Rightarrow> bool" where
  "Satisfied c now =
     (if 0 < len_map (Months c) \<and> \<not> index_map (Months c) (Month now) then False
      else if 0 < len_map (Weekdays c) \<and> \<not> index_map (Weekdays c) (Weekday now) then False
      else if 0 < len_map (Days c) \<and> \<not> index_map (Days c) (Day now) then False
      else if 0 < len_map (Hours c) \<and> \<not> index_map (Hours c) (Hour now) then False
      else True)"

section \<open>The frequency ticker (runTicker)\<close>

text \<open>
  A \<^verbatim>\<open>time.Time\<close> is modelled as the number of nanoseconds since Go's zero time
  (January 1, year 1, 00:00:00 UTC), the origin \<^verbatim>\<open>Truncate\<close> rounds against; a
  \<^verbatim>\<open>time.Duration\<close> is a number of nanoseconds.  Both are unbounded integers here.
\<close>

type_synonym time = int
type_synonym duration = int

definition Second :: duration where
  "Second = 1000000000"

definition Minute :: duration where
  "Minute = 60 * Second"

definition Hour_d :: duration where
  "Hour_d = 60 * Minute"

text \<open>\<^verbatim>\<open>t.Truncate(d)\<close> rounds \<open>t\<close> down to a multiple of \<open>d\<close>; for \<open>d \<le> 0\<close> it returns \<open>t\<close>.\<close>

definition Truncate :: "time \<Rightarrow> duration \<Rightarrow> time" where
  "Truncate t d = (if d \<le> 0 then t else t - t mod d)"

definition Add :: "time \<Rightarrow> duration \<Rightarrow> time" where
  "Add t d = t + d"

definition After :: "time \<Rightarrow> time \<Rightarrow> bool" where
  "After t u = (u < t)"

definition Before :: "time \<Rightarrow> time \<Rightarrow> bool" where
  "Before t u = (t < u)"

record Freq =
  Period :: duration
  Offset :: duration

record runTick =
  freq :: Freq
  tooLate :: time

text \<open>The value of \<^verbatim>\<open>next\<close> computed by one iteration of the loop of \<^verbatim>\<open>runTicker\<close>.\<close>

definition tickerNext :: "Freq \<Rightarrow> time \<Rightarrow> time" where
  "tickerNext fr now =
     (if After (Add (Truncate now (Period fr)) (Offset fr)) now
      then Add (Truncate now (Period fr)) (Offset fr)
      else Add (Add (Truncate now (Period fr)) (Period fr)) (Offset fr))"

text \<open>
  What one iteration does after computing \<^verbatim>\<open>next\<close>: it either sleeps one second and
  sends nothing, or sleeps until \<^verbatim>\<open>next\<close> and sends a tick.
\<close>

datatype tickerAction =
  SleepOnly duration
  | SleepAndSend duration runTick

definition runTickerStep :: "Freq \<Rightarrow> time \<Rightarrow> tickerAction" where
  "runTickerStep fr now =
     (let next = tickerNext fr now in
      if Before next now then SleepOnly Second
      else SleepAndSend (next - now) \<lparr>freq = fr, tooLate = Add next (Period fr)\<rparr>)"

text \<open>The moment \<open>h:m:s\<close> plus \<open>ns\<close> nanoseconds (UTC) on day number \<open>d\<close> after the zero time.\<close>

definition clock :: "int \<Rightarrow> int \<Rightarrow> int \<Rightarrow> int \<Rightarrow> int \<Rightarrow> time" where
  "clock d h m s ns = (((d * 24 + h) * 60 + m) * 60 + s) * 1000000000 + ns"

section \<open>The dependency graph (scheduler/graph.go)\<close>

text \<open>
  An \<^verbatim>\<open>Item\<close> is anything with a \<^verbatim>\<open>GetName\<close> method.  The items of a graph are the
  caller's items (a table or a job) and the scorer's child sentinel, whose name is the
  empty string.  The name function of the caller's items is the parameter \<open>nm\<close>.
\<close>

datatype 'a Item = sentinel | item 'a

definition csName :: string where
  "csName = []"

fun GetName :: "('a \<Rightarrow> string) \<Rightarrow> 'a Item \<Rightarrow> string" where
  "GetName nm sentinel = csName"
| "GetName nm (item x) = nm x"

text \<open>
  A node keeps its item and two Go maps from names to node pointers.  Every pointer stored
  by \<^verbatim>\<open>Relate\<close> is the graph's own node of that name, and the traversals look every popped
  node up again by name, so a pointer is modelled by the name, and a map of pointers by
  the list of its keys (without repetition, in no particular order).
\<close>

record 'a node =
  Item :: "'a Item"
  children :: "string list"
  parents :: "string list"

type_synonym 'a Graph = "(string \<times> 'a node) list"

definition newNode :: "'a Item \<Rightarrow> 'a node" where
  "newNode t = \<lparr>Item = t, children = [], parents = []\<rparr>"

definition addKey :: "string \<Rightarrow> string list \<Rightarrow> string list" where
  "addKey k ks = (if k \<in> set ks then ks else ks @ [k])"

definition addParent :: "string \<Rightarrow> 'a node \<Rightarrow> 'a node" where
  "addParent p n = n\<lparr>parents := addKey p (parents n)\<rparr>"

definition addChild :: "string \<Rightarrow> 'a node \<Rightarrow> 'a node" where
  "addChild c n = n\<lparr>children := addKey c (children n)\<rparr>"

definition NewGraph :: "'a Graph" where
  "NewGraph = []"

definition getItem :: "'a Graph \<Rightarrow> string \<Rightarrow> 'a node option" where
  "getItem g name = map_of g name"

definition addItem :: "('a \<Rightarrow> string) \<Rightarrow> 'a Item \<Rightarrow> 'a Graph \<Rightarrow> 'a Graph" where
  "addItem nm t g =
     (if getItem g (GetName nm t) = None then g @ [(GetName nm t, newNode t)] else g)"

text \<open>\<^verbatim>\<open>Relate(parent, child)\<close>; a \<^verbatim>\<open>nil\<close> parent is \<open>None\<close>.\<close>

definition Relate :: "('a \<Rightarrow> string) \<Rightarrow> 'a Item option \<Rightarrow> 'a Item \<Rightarrow> 'a Graph \<Rightarrow> 'a Graph" where
  "Relate nm parent child g =
     (let g1 = addItem nm child g in
      case parent of
        None \<Rightarrow> g1
      | Some p \<Rightarrow>
          (let g2 = addItem nm p g1;
               g3 = AList.map_entry (GetName nm child) (addParent (GetName nm p)) g2
           in AList.map_entry (GetName nm p) (addChild (GetName nm child)) g3))"

datatype err = Err string | Panic

definition delParent :: "string \<Rightarrow> 'a node \<Rightarrow> 'a node" where
  "delParent p n = n\<lparr>parents := removeAll p (parents n)\<rparr>"

definition RemoveItem :: "string \<Rightarrow> 'a Graph \<Rightarrow> err + 'a Graph" where
  "RemoveItem name g =
     (case getItem g name of
        None \<Rightarrow> Inr g
      | Some n \<Rightarrow>
          if 0 < length (parents n) then Inl (Err ''Node has parents, cannot be removed.'')
          else Inr (AList.delete name
                 (fold (\<lambda>c. AList.map_entry c (delParent name)) (children n) g)))"

text \<open>
  \<^verbatim>\<open>sortedNodes\<close> allocates its two slices with a length instead of a capacity and then
  appends: the names start with one empty string per key, and the result starts with one
  \<^verbatim>\<open>nil\<close> per name; an empty name yields \<^verbatim>\<open>nil\<close> again unless the map has the empty key.
  \<open>None\<close> is the \<^verbatim>\<open>nil\<close> pointer.
\<close>

definition sortedNodes :: "string list \<Rightarrow> string option list" where
  "sortedNodes nmap =
     (let names = sort (replicate (length nmap) [] @ nmap) in
      replicate (length names) None
        @ map (\<lambda>name. if name \<in> set nmap then Some name else None) names)"

text \<open>
  The breadth-first traversals.  \<open>nbrs\<close> selects the parents (\<^verbatim>\<open>bftUp\<close>) or the children
  (\<^verbatim>\<open>bftDown\<close>); the result lists the names of the items the action is called on, in
  order.  A popped name that the graph does not have makes \<^verbatim>\<open>nn\<close> a nil pointer, and
  \<^verbatim>\<open>nn.Item\<close> panics.
\<close>

function bft :: "'a Graph \<Rightarrow> ('a node \<Rightarrow> string list) \<Rightarrow> string list \<Rightarrow> string option list
    \<Rightarrow> err + string list" where
  "bft g nbrs seen [] = Inr []"
| "bft g nbrs seen (None # queue) = bft g nbrs seen queue"
| "bft g nbrs seen (Some n # queue) =
     (if n \<in> set seen then bft g nbrs seen queue
      else case getItem g n of
             None \<Rightarrow> Inl Panic
           | Some nn \<Rightarrow>
               (case bft g nbrs (n # seen) (queue @ sortedNodes (nbrs nn)) of
                  Inl e \<Rightarrow> Inl e
                | Inr vs \<Rightarrow> Inr (n # vs)))"
  by pat_completeness auto
termination
proof (relation "measures [\<lambda>(g, nbrs, seen, queue). card (fst ` set g - set seen),
                           \<lambda>(g, nbrs, seen, queue). length queue]")
  fix g :: "'a Graph" and nbrs :: "'a node \<Rightarrow> string list" and seen queue n nn
  assume "n \<notin> set seen" and "getItem g n = Some nn"
  then have mem: "n \<in> fst ` set g - set seen"
    by (auto simp: getItem_def dest: map_of_SomeD intro: rev_image_eqI)
  have fin: "finite (fst ` set g - set seen)"
    by simp
  have "fst ` set g - set (n # seen) = (fst ` set g - set seen) - {n}"
    by auto
  with card_Diff1_less [OF fin mem]
  have "card (fst ` set g - set (n # seen)) < card (fst ` set g - set seen)"
    by simp
  then show "((g, nbrs, n # seen, queue @ sortedNodes (nbrs nn)), g, nbrs, seen, Some n # queue)
    \<in> measures [\<lambda>(g, nbrs, seen, queue). card (fst ` set g - set seen),
                 \<lambda>(g, nbrs, seen, queue). length queue]"
    by simp
qed auto

definition bftUp :: "'a Graph \<Rightarrow> string option \<Rightarrow> err + string list" where
  "bftUp g start = bft g parents [] [start]"

definition bftDown :: "'a Graph \<Rightarrow> string option \<Rightarrow> err + string list" where
  "bftDown g start = bft g children [] [start]"

text \<open>
  \<^verbatim>\<open>childSentinel\<close>: unless the graph has a node of the empty name, every node without
  children becomes a parent of the sentinel.  It returns the pointer \<^verbatim>\<open>g[csName]\<close>, which
  is \<^verbatim>\<open>nil\<close> when no node qualified.
\<close>

definition childSentinel :: "('a \<Rightarrow> string) \<Rightarrow> 'a Graph \<Rightarrow> 'a Graph \<times> string option" where
  "childSentinel nm g =
     (let g' = (if getItem g csName = None
                then fold (\<lambda>(name, n) acc.
                        if name \<noteq> csName \<and> length (children n) = 0
                        then Relate nm (Some (Item n)) sentinel acc else acc) g g
                else g)
      in (g', if getItem g' csName = None then None else Some csName))"

type_synonym scoreName = "int \<times> string"

text \<open>The action of \<^verbatim>\<open>Scores\<close> on one visited name, appending to \<open>result\<close>.\<close>

definition scoreAction :: "'a Graph \<Rightarrow> string \<Rightarrow> scoreName list \<Rightarrow> err + scoreName list" where
  "scoreAction g name result =
     (case bftDown g (map_option (\<lambda>_. name) (getItem g name)) of
        Inl e \<Rightarrow> Inl e
      | Inr vs \<Rightarrow>
          (let n = - 2 + int (length vs) in
           if name \<noteq> csName then Inr (result @ [(n, name)]) else Inr result))"

fun scoreAll :: "'a Graph \<Rightarrow> string list \<Rightarrow> scoreName list \<Rightarrow> err + scoreName list" where
  "scoreAll g [] result = Inr result"
| "scoreAll g (name # names) result =
     (case scoreAction g name result of
        Inl e \<Rightarrow> Inl e
      | Inr result' \<Rightarrow> scoreAll g names result')"

text \<open>
  \<^verbatim>\<open>Scores\<close> changes the graph (the sentinel stays in it), so the graph is returned too.
  \<^verbatim>\<open>sort.SliceStable\<close> with \<^verbatim>\<open>Score[i] > Score[j]\<close> is a stable sort by descending score.
\<close>

definition Scores :: "('a \<Rightarrow> string) \<Rightarrow> 'a Graph \<Rightarrow> err + ('a Graph \<times> scoreName list)" where
  "Scores nm g =
     (case childSentinel nm g of
        (g', cs) \<Rightarrow>
          (case bftUp g' cs of
             Inl e \<Rightarrow> Inl e
           | Inr visited \<Rightarrow>
               (case scoreAll g' visited [] of
                  Inl e \<Rightarrow> Inl e
                | Inr result \<Rightarrow> Inr (g', sort_key (\<lambda>sn. - fst sn) result))))"

text \<open>
  \<^verbatim>\<open>ReadyItems\<close> returns the ready items and the error together (\<open>None\<close> is a nil
  error), and the graph as \<^verbatim>\<open>Scores\<close> left it.
\<close>

fun readyOf :: "'a Graph \<Rightarrow> scoreName list \<Rightarrow> err + 'a Item list" where
  "readyOf g [] = Inr []"
| "readyOf g (sn # sns) =
     (case getItem g (snd sn) of
        None \<Rightarrow> Inl Panic
      | Some n \<Rightarrow>
          (case readyOf g sns of
             Inl e \<Rightarrow> Inl e
           | Inr result \<Rightarrow> Inr (if length (parents n) = 0 then Item n # result else result)))"

definition ReadyItems :: "('a \<Rightarrow> string) \<Rightarrow> 'a Graph
    \<Rightarrow> err + ('a Graph \<times> 'a Item list \<times> err option)" where
  "ReadyItems nm g =
     (case Scores nm g of
        Inl e \<Rightarrow> Inl e
      | Inr (g', scores) \<Rightarrow>
          (case readyOf g' scores of
             Inl e \<Rightarrow> Inl e
           | Inr result \<Rightarrow>
               Inr (g', result,
                    if 1 < length g' \<and> length result = 0 then Some (Err ''Cycle detected.'')
                    else None)))"

section \<open>Notions for stating properties of graphs\<close>

text \<open>The names of the nodes of a graph.\<close>

definition keys :: "'a Graph \<Rightarrow> string set" where
  "keys g = fst ` set g"

text \<open>The node \<^verbatim>\<open>addItem\<close> returns for an item: the one the graph has under its name, or a new one.\<close>

definition nodeOr :: "('a \<Rightarrow> string) \<Rightarrow> 'a Graph \<Rightarrow> 'a Item \<Rightarrow> 'a node" where
  "nodeOr nm g t = (case getItem g (GetName nm t) of None \<Rightarrow> newNode t | Some n \<Rightarrow> n)"

text \<open>The relation a graph defines through one of the two maps of its nodes.\<close>

definition nbrRel :: "'a Graph \<Rightarrow> ('a node \<Rightarrow> string list) \<Rightarrow> (string \<times> string) set" where
  "nbrRel g nbrs = {(a, b). \<exists>n. getItem g a = Some n \<and> b \<in> set (nbrs n)}"

text \<open>The parent-to-child relation of a graph.\<close>

definition edges :: "'a Graph \<Rightarrow> (string \<times> string) set" where
  "edges g = nbrRel g children"

text \<open>
  The shape every graph built by \<^verbatim>\<open>NewGraph\<close>, \<^verbatim>\<open>Relate\<close>, \<^verbatim>\<open>RemoveItem\<close> and
  \<^verbatim>\<open>childSentinel\<close> has: the names are distinct, every node is stored under the name of
  its item, children are nodes, and \<open>p\<close> is a parent of \<open>c\<close> exactly when \<open>c\<close> is a child of
  \<open>p\<close>.
\<close>

definition wfGraph :: "('a \<Rightarrow> string) \<Rightarrow> 'a Graph \<Rightarrow> bool" where
  "wfGraph nm g \<longleftrightarrow>
     distinct (map fst g) \<and>
     (\<forall>k n. getItem g k = Some n \<longrightarrow> GetName nm (Item n) = k) \<and>
     edges g \<subseteq> keys g \<times> keys g \<and>
     nbrRel g parents = (edges g)\<inverse>"


text \<open>The body of the loop of \<^verbatim>\<open>childSentinel\<close>.\<close>

definition addSentinel :: "('a \<Rightarrow> string) \<Rightarrow> string \<times> 'a node \<Rightarrow> 'a Graph \<Rightarrow> 'a Graph" where
  "addSentinel nm = (\<lambda>(name, n) acc.
     if name \<noteq> csName \<and> length (children n) = 0
     then Relate nm (Some (Item n)) sentinel acc else acc)"




text \<open>All items of the nodes of a graph lie in a set.\<close>

definition itemsIn :: "'a Item set \<Rightarrow> 'a Graph \<Rightarrow> bool" where
  "itemsIn S g \<longleftrightarrow> (\<forall>k n. getItem g k = Some n \<longrightarrow> Item n \<in> S)"

section \<open>Strings\<close>

text \<open>\<^verbatim>\<open>strings.Contains(s, substr)\<close>.\<close>

fun Contains :: "string \<Rightarrow> string \<Rightarrow> bool" where
  "Contains [] substr = (substr = [])"
| "Contains (c # cs) substr = (take (length substr) (c # cs) = substr \<or> Contains cs substr)"

text \<open>The last element of \<^verbatim>\<open>strings.Split(s, sep)\<close> for a one-character separator.\<close>

definition lastPart :: "char \<Rightarrow> string \<Rightarrow> string" where
  "lastPart sep s = rev (takeWhile (\<lambda>c. c \<noteq> sep) (rev s))"

text \<open>\<^verbatim>\<open>fmt.Sprintf("%d", i)\<close>.\<close>

fun digitsOf :: "nat \<Rightarrow> string" where
  "digitsOf n =
     (if n < 10 then [''0123456789'' ! n]
      else digitsOf (n div 10) @ [''0123456789'' ! (n mod 10)])"

declare digitsOf.simps [simp del]

definition Sprintf_d :: "int \<Rightarrow> string" where
  "Sprintf_d i = (if i < 0 then CHR ''-'' # digitsOf (nat (- i)) else digitsOf (nat i))"

section \<open>Jobs, the catalog and the warehouse (package model)\<close>

text \<open>
  A value persisted as JSON text either parses to its content or does not parse.  A
  pointer that may be \<^verbatim>\<open>nil\<close> is an \<open>option\<close>.
\<close>

datatype 'a json = BadJson | Json 'a

record JobStatus =
  State :: string
  ErrorResult :: "string option"

text \<open>
  Of a \<^verbatim>\<open>bigquery.JobConfiguration\<close> the core reads the source URIs of the load branch
  (\<open>None\<close> when \<^verbatim>\<open>cfg.Load\<close> is \<^verbatim>\<open>nil\<close>); the rest stays an opaque text.
\<close>

record JobConfiguration =
  LoadSourceUris :: "string list option"
  confBody :: string

text \<open>
  The fields of \<^verbatim>\<open>BQJob\<close> that scheduling reads or writes.  The statistics excerpts, the
  byte counters, the creation and start times and the destination URLs are left out: no
  function below branches on them.  \<open>Parents = None\<close> stands for a nil pointer or a pointer
  to the empty string, which \<^verbatim>\<open>graphFromJobsById\<close> treats alike.
\<close>

record BQJob =
  Id :: int
  TableId :: int
  RunId :: "int option"
  Parents :: "int list json option"
  BQJobId :: string
  Type :: string
  Configuration :: "JobConfiguration json option"
  Status :: "JobStatus json option"
  EndTime :: "time option"
  state :: string
  error :: string

definition bqSchemaErr :: string where
  "bqSchemaErr = ''Provided Schema does not match Table''"

definition bqRetryingErr :: string where
  "bqRetryingErr = ''Retrying may solve the problem''"

definition jobName :: "BQJob \<Rightarrow> string" where
  "jobName j = Sprintf_d (TableId j)"

definition cacheStatus :: "BQJob \<Rightarrow> err + BQJob" where
  "cacheStatus j =
     (case Status j of
        None \<Rightarrow> Inr j
      | Some BadJson \<Rightarrow> Inl (Err ''invalid character'')
      | Some (Json status) \<Rightarrow>
          Inr (j\<lparr>state := State status,
                 error := (case ErrorResult status of None \<Rightarrow> error j | Some msg \<Rightarrow> msg)\<rparr>))"

definition getConfig :: "BQJob \<Rightarrow> err + JobConfiguration" where
  "getConfig j =
     (case Configuration j of
        None \<Rightarrow> Inl (Err (''Missing configuration in job '' @ Sprintf_d (Id j)))
      | Some BadJson \<Rightarrow> Inl (Err ''invalid character'')
      | Some (Json conf) \<Rightarrow> Inr conf)"

text \<open>\<^verbatim>\<open>ParseGcsUri\<close>, of which \<^verbatim>\<open>importFileName\<close> keeps the object name.\<close>

definition ParseGcsUri :: "string \<Rightarrow> err + (string \<times> string)" where
  "ParseGcsUri uri =
     (if take 5 uri \<noteq> ''gs://'' then Inl (Err ''parse GCS URI: scheme is not gs://'')
      else let rest = drop 5 uri in
        if CHR ''/'' \<notin> set rest then Inl (Err ''parse GCS URI: no object name'')
        else Inr (takeWhile (\<lambda>c. c \<noteq> CHR ''/'') rest,
                  drop 1 (dropWhile (\<lambda>c. c \<noteq> CHR ''/'') rest)))"

definition importFileName :: "BQJob \<Rightarrow> err + string" where
  "importFileName j =
     (case getConfig j of
        Inl e \<Rightarrow> Inl e
      | Inr cfg \<Rightarrow>
          (case LoadSourceUris cfg of
             None \<Rightarrow> Inl (Err ''Missing Load.SourceUris.'')
           | Some [] \<Rightarrow> Inl (Err ''Missing Load.SourceUris.'')
           | Some (uri # _) \<Rightarrow>
               (case ParseGcsUri uri of Inl e \<Rightarrow> Inl e | Inr (_, fn) \<Rightarrow> Inr fn)))"

text \<open>
  What the warehouse returns for a job (\<^verbatim>\<open>bigquery.Job\<close>): its id, and optional
  configuration, status and statistics, of which the end time (milliseconds) is kept.
\<close>

record bqJob =
  bqId :: string
  bqConfiguration :: "JobConfiguration option"
  bqStatus :: "JobStatus option"
  bqStatisticsEndTime :: "int option"

definition timeFromMs :: "int \<Rightarrow> time" where
  "timeFromMs ms = 62135596800 * 1000000000 + ms * 1000000"

text \<open>
  \<^verbatim>\<open>updateJobWithBQData\<close> for a non-nil job.  It reads \<^verbatim>\<open>bqJob.Statistics\<close> without a
  nil check, which panics when the statistics are absent.  The error of the inner
  \<^verbatim>\<open>cacheStatus\<close> call is dropped, as in the source.
\<close>

definition updateJobWithBQData :: "BQJob \<Rightarrow> bqJob \<Rightarrow> err + BQJob" where
  "updateJobWithBQData job b =
     (let jid = bqId b;
          jid = (if Contains jid '':'' then lastPart (CHR '':'') jid else jid);
          jid = (if Contains jid ''.'' then lastPart (CHR ''.'') jid else jid);
          job = job\<lparr>BQJobId := jid\<rparr>;
          job = (case bqConfiguration b of
                   None \<Rightarrow> job
                 | Some c \<Rightarrow> job\<lparr>Configuration := Some (Json c)\<rparr>);
          job = (case bqStatus b of
                   None \<Rightarrow> job
                 | Some st \<Rightarrow> job\<lparr>Status := Some (Json st)\<rparr>);
          job = (case cacheStatus job of Inl _ \<Rightarrow> job | Inr job' \<Rightarrow> job')
      in case bqStatisticsEndTime b of
           None \<Rightarrow> Inl Panic
         | Some ms \<Rightarrow>
             Inr (if ms \<noteq> 0 then job\<lparr>EndTime := Some (timeFromMs ms)\<rparr> else job))"

text \<open>
  The tables of the catalog, with the fields scheduling reads or writes.  Soft-deleted
  tables are not listed: \<^verbatim>\<open>SelectTable\<close> does not return them.
\<close>

record Table =
  Table_Id :: int
  Table_Error :: string
  Running :: bool
  ImportDbId :: int
  ExternalTmout :: int

definition IsImport :: "Table \<Rightarrow> bool" where
  "IsImport t = (ImportDbId t \<noteq> 0)"

definition IsExternal :: "Table \<Rightarrow> bool" where
  "IsExternal t = (ExternalTmout t \<noteq> 0)"

datatype importStatus = ImpNone | ImpQueued | ImpRunning | ImpDone | ImpError

record importJob =
  imp_table :: Table
  imp_fname :: string
  imp_job :: BQJob

text \<open>
  An entry of the external-wait registry: its channel, named by a number, and its job.
  A waiter is the goroutine that \<^verbatim>\<open>startExternalWait\<close> starts: it holds the channel, the
  table it was started for and the timeout.
\<close>

record externalWait =
  ew_ch :: nat
  ew_job :: "BQJob option"

record waiter =
  w_ch :: nat
  w_table :: Table
  w_tmout :: duration

record Run =
  Run_Id :: int
  Run_EndTime :: "time option"
  maxErrCnt :: int

text \<open>
  The model: the catalog (jobs in ascending id order, tables, runs), the process-local
  maps and queue, the goroutines started, and the two outside systems.  The warehouse
  answers the \<open>n\<close>-th \<^verbatim>\<open>StartJob\<close> call with \<open>bqAnswers n\<close>, an error text or a job;
  \<open>bqStarted\<close> lists the jobs it has accepted, each with the answer.  The \<open>n\<close>-th catalog
  call fails with \<open>dbAnswers n\<close> when that is not \<open>None\<close>.
\<close>

record Model =
  jobs :: "BQJob list"
  tables :: "Table list"
  runs :: "Run list"
  imports_map :: "(int, importStatus) fmap"
  importQueue :: "importJob list"
  externalWaits :: "(int, externalWait) fmap"
  nextChan :: nat
  waiters :: "waiter list"
  monitors :: "BQJob list"
  bqAnswers :: "nat \<Rightarrow> string + bqJob"
  bqCalls :: nat
  bqStarted :: "(BQJob \<times> bqJob) list"
  dbAnswers :: "nat \<Rightarrow> string option"
  dbCalls :: nat

text \<open>One catalog call: it fails or goes through, and is counted either way.\<close>

definition dbCall :: "Model \<Rightarrow> err option \<times> Model" where
  "dbCall m = (map_option Err (dbAnswers m (dbCalls m)), m\<lparr>dbCalls := Suc (dbCalls m)\<rparr>)"

definition UpdateBQJob :: "BQJob \<Rightarrow> Model \<Rightarrow> err option \<times> Model" where
  "UpdateBQJob j m =
     (case dbCall m of
        (Some e, m') \<Rightarrow> (Some e, m')
      | (None, m') \<Rightarrow>
          (None, m'\<lparr>jobs := map (\<lambda>row. if Id row = Id j then j else row) (jobs m')\<rparr>))"

definition StartJob :: "BQJob \<Rightarrow> JobConfiguration \<Rightarrow> Model \<Rightarrow> (string + bqJob) \<times> Model" where
  "StartJob job conf m =
     (case bqAnswers m (bqCalls m) of
        Inl e \<Rightarrow> (Inl e, m\<lparr>bqCalls := Suc (bqCalls m)\<rparr>)
      | Inr b \<Rightarrow> (Inr b, m\<lparr>bqCalls := Suc (bqCalls m), bqStarted := bqStarted m @ [(job, b)]\<rparr>))"

text \<open>
  \<^verbatim>\<open>submitJob\<close> returns the error (\<open>None\<close> is \<^verbatim>\<open>nil\<close>), the job as the caller's pointer
  now sees it, and the model.  When the first \<^verbatim>\<open>StartJob\<close> fails, the function returns
  inside the \<^verbatim>\<open>if err != nil\<close> block whether or not it retried: after a retry that
  succeeded, \<^verbatim>\<open>return err\<close> returns \<^verbatim>\<open>nil\<close>.
\<close>

definition submitJob :: "BQJob \<Rightarrow> Model \<Rightarrow> err option \<times> BQJob \<times> Model" where
  "submitJob job m =
     (case getConfig job of
        Inl e \<Rightarrow> (Some e, job, m)
      | Inr conf \<Rightarrow>
          (case StartJob job conf m of
             (Inl e, m1) \<Rightarrow>
               if Contains e ''server encountered a temporary error''
               then (case StartJob job conf m1 of
                       (Inl e2, m2) \<Rightarrow> (Some (Err e2), job, m2)
                     | (Inr b2, m2) \<Rightarrow> (None, job, m2))
               else (Some (Err e), job, m1)
           | (Inr b, m1) \<Rightarrow>
               (case updateJobWithBQData job b of
                  Inl e \<Rightarrow> (Some e, job, m1)
                | Inr job' \<Rightarrow>
                    (case UpdateBQJob job' m1 of
                       (Some e, m2) \<Rightarrow> (Some e, job', m2)
                     | (None, m2) \<Rightarrow> (None, job', m2)))))"

section \<open>Tables, import status and external waits\<close>

definition SelectTable :: "int \<Rightarrow> Model \<Rightarrow> (err + Table option) \<times> Model" where
  "SelectTable tid m =
     (case dbCall m of
        (Some e, m') \<Rightarrow> (Inl e, m')
      | (None, m') \<Rightarrow> (Inr (find (\<lambda>t. Table_Id t = tid) (tables m')), m'))"

definition SaveTable :: "Table \<Rightarrow> Model \<Rightarrow> err option \<times> Model" where
  "SaveTable t m =
     (case dbCall m of
        (Some e, m') \<Rightarrow> (Some e, m')
      | (None, m') \<Rightarrow>
          (None, m'\<lparr>tables := map (\<lambda>row. if Table_Id row = Table_Id t then t else row)
                                 (tables m')\<rparr>))"

text \<open>
  The setters change the table the caller holds and save it; they return the error, the
  table as the caller's pointer now sees it, and the model.
\<close>

definition setRunning :: "Table \<Rightarrow> bool \<Rightarrow> Model \<Rightarrow> err option \<times> Table \<times> Model" where
  "setRunning t running m =
     (let t' = t\<lparr>Running := running\<rparr> in
      case SaveTable t' m of (e, m') \<Rightarrow> (e, t', m'))"

text \<open>\<^verbatim>\<open>setError\<close> with a non-nil error of text \<open>msg\<close>.\<close>

definition setError :: "Table \<Rightarrow> string \<Rightarrow> Model \<Rightarrow> err option \<times> Table \<times> Model" where
  "setError t msg m =
     (let t' = t\<lparr>Running := False, Table_Error := msg\<rparr> in
      case SaveTable t' m of (e, m') \<Rightarrow> (e, t', m'))"

definition GetImportStatus :: "int \<Rightarrow> Model \<Rightarrow> importStatus" where
  "GetImportStatus tid m =
     (case fmlookup (imports_map m) tid of None \<Rightarrow> ImpNone | Some st \<Rightarrow> st)"

definition setImportStatus :: "int \<Rightarrow> importStatus \<Rightarrow> Model \<Rightarrow> Model" where
  "setImportStatus tid st m = m\<lparr>imports_map := fmupd tid st (imports_map m)\<rparr>"

text \<open>
  \<^verbatim>\<open>queueImport\<close> for a job that exists already, as \<^verbatim>\<open>processCycle\<close> calls it.  The send
  on the queue's channel is modelled as an append; that it blocks while 1024 tasks are
  queued is not.
\<close>

definition queueImport :: "Table \<Rightarrow> BQJob \<Rightarrow> Model \<Rightarrow> err option \<times> Model" where
  "queueImport t job m =
     (if GetImportStatus (Table_Id t) m \<noteq> ImpNone
      then (Some (Err ''Already queued, running or done''), m)
      else case importFileName job of
             Inl e \<Rightarrow> (Some e, m)
           | Inr fname \<Rightarrow>
               (None, setImportStatus (Table_Id t) ImpQueued
                  (m\<lparr>importQueue := importQueue m
                       @ [\<lparr>imp_table = t, imp_fname = fname, imp_job = job\<rparr>]\<rparr>)))"

text \<open>\<^verbatim>\<open>Duration.String()\<close> of the standard library, on the value of an \<^verbatim>\<open>int64\<close>.\<close>

definition fmtFrac :: "nat \<Rightarrow> nat \<Rightarrow> string" where
  "fmtFrac v prec =
     (let f = v mod 10 ^ prec in
      if f = 0 then []
      else CHR ''.'' # rev (dropWhile (\<lambda>c. c = CHR ''0'')
             (rev (replicate (prec - length (digitsOf f)) (CHR ''0'') @ digitsOf f))))"

definition DurationString :: "duration \<Rightarrow> string" where
  "DurationString d =
     (let u = nat \<bar>d\<bar>;
          body =
            (if u < 1000000000 then
               (if u = 0 then ''0s''
                else if u < 1000 then digitsOf u @ ''ns''
                else if u < 1000000
                  then digitsOf (u div 1000) @ fmtFrac u 3 @ [CHR 0xC2, CHR 0xB5, CHR ''s'']
                else digitsOf (u div 1000000) @ fmtFrac u 6 @ ''ms'')
             else
               (let secs = u div 1000000000; mins = secs div 60; hrs = mins div 60 in
                (if 0 < mins
                 then (if 0 < hrs then digitsOf hrs @ ''h'' else []) @ digitsOf (mins mod 60) @ ''m''
                 else [])
                @ digitsOf (secs mod 60) @ fmtFrac u 9 @ ''s''))
      in if d < 0 then CHR ''-'' # body else body)"

text \<open>The value an \<^verbatim>\<open>int64\<close> holds after an arithmetic result \<open>x\<close> wrapped around.\<close>

definition toInt64 :: "int \<Rightarrow> int" where
  "toInt64 x = (x + 2 ^ 63) mod 2 ^ 64 - 2 ^ 63"

definition hasExternalWait :: "Table \<Rightarrow> Model \<Rightarrow> bool" where
  "hasExternalWait t m = (fmlookup (externalWaits m) (Table_Id t) \<noteq> None)"

text \<open>
  \<^verbatim>\<open>startExternalWait\<close> registers the wait and starts the goroutine that waits for the
  channel or the timeout; the goroutine keeps the pointer to the table.
\<close>

definition startExternalWait :: "Table \<Rightarrow> BQJob option \<Rightarrow> Model \<Rightarrow> err option \<times> Table \<times> Model" where
  "startExternalWait t job m =
     (if \<not> IsExternal t then (Some (Err ''Not an external table''), t, m)
      else if hasExternalWait t m
        then (Some (Err (''ExternalWait for table id '' @ Sprintf_d (Table_Id t)
                          @ '' already exists.'')), t, m)
      else case setRunning t True m of
             (Some e, t', m') \<Rightarrow> (Some e, t', m')
           | (None, t', m') \<Rightarrow>
               (None, t',
                m'\<lparr>externalWaits :=
                      fmupd (Table_Id t') \<lparr>ew_ch = nextChan m', ew_job = job\<rparr> (externalWaits m'),
                    nextChan := Suc (nextChan m'),
                    waiters := waiters m'
                      @ [\<lparr>w_ch = nextChan m', w_table = t',
                          w_tmout = toInt64 (ExternalTmout t' * Second)\<rparr>]\<rparr>))"

text \<open>
  \<^verbatim>\<open>cancelExternalWait\<close> closes the channel, on which the goroutine holding it returns,
  and deletes the entry; it returns the entry's job.
\<close>

definition cancelExternalWait :: "Table \<Rightarrow> Model \<Rightarrow> BQJob option \<times> Model" where
  "cancelExternalWait t m =
     (case fmlookup (externalWaits m) (Table_Id t) of
        None \<Rightarrow> (None, m)
      | Some ew \<Rightarrow>
          (ew_job ew,
           m\<lparr>externalWaits := fmdrop (Table_Id t) (externalWaits m),
             waiters := filter (\<lambda>w. w_ch w \<noteq> ew_ch ew) (waiters m)\<rparr>))"

text \<open>
  The timeout branch of a waiting goroutine: it sets the error on the table it holds and
  returns.  A goroutine that has returned does nothing.
\<close>

definition timedOutMsg :: "duration \<Rightarrow> string" where
  "timedOutMsg tmout = ''External wait timed out after '' @ DurationString tmout"

definition timeoutFires :: "waiter \<Rightarrow> Model \<Rightarrow> Model" where
  "timeoutFires w m =
     (if w \<notin> set (waiters m) then m
      else case setError (w_table w) (timedOutMsg (w_tmout w)) m of
             (_, _, m') \<Rightarrow> m'\<lparr>waiters := remove1 w (waiters m')\<rparr>)"

section \<open>The run coordinator\<close>

definition SelectBQJobsByRunId :: "int \<Rightarrow> Model \<Rightarrow> (err + BQJob list) \<times> Model" where
  "SelectBQJobsByRunId rid m =
     (case dbCall m of
        (Some e, m') \<Rightarrow> (Inl e, m')
      | (None, m') \<Rightarrow> (Inr (sort_key Id (filter (\<lambda>j. RunId j = Some rid) (jobs m'))), m'))"

definition UpdateRun :: "Run \<Rightarrow> Model \<Rightarrow> err option \<times> Model" where
  "UpdateRun r m =
     (case dbCall m of
        (Some e, m') \<Rightarrow> (Some e, m')
      | (None, m') \<Rightarrow>
          (None, m'\<lparr>runs := map (\<lambda>row. if Run_Id row = Run_Id r then r else row) (runs m')\<rparr>))"

text \<open>
  The loop of \<^verbatim>\<open>loadRunUnfinishedJobGraph\<close> over the jobs of the run.  \<open>byId\<close> is the Go
  map from table id to job, kept as an association list.
\<close>

fun unfinishedJobs :: "Run \<Rightarrow> BQJob list \<Rightarrow> int \<Rightarrow> (int \<times> BQJob) list
    \<Rightarrow> err + (int \<times> BQJob) list" where
  "unfinishedJobs r [] errCnt byId = Inr byId"
| "unfinishedJobs r (j # js) errCnt byId =
     (case cacheStatus j of
        Inl e \<Rightarrow> Inl e
      | Inr j \<Rightarrow>
          if Contains (error j) bqSchemaErr then unfinishedJobs r js errCnt byId
          else
            (let errCnt = (if error j \<noteq> [] then errCnt + 1 else errCnt) in
             if state j \<noteq> ''DONE'' \<or>
                (error j \<noteq> [] \<and> (maxErrCnt r = 0 \<or> maxErrCnt r > 0 \<and> errCnt > maxErrCnt r))
             then unfinishedJobs r js errCnt (AList.update (TableId j) j byId)
             else unfinishedJobs r js errCnt byId))"

text \<open>The inner loop of \<^verbatim>\<open>graphFromJobsById\<close> over the parents of one job; \<open>n\<close> counts.\<close>

fun relateParents :: "(int \<times> BQJob) list \<Rightarrow> BQJob \<Rightarrow> int list \<Rightarrow> BQJob Graph \<times> nat
    \<Rightarrow> BQJob Graph \<times> nat" where
  "relateParents byId job [] (g, n) = (g, n)"
| "relateParents byId job (pid # pids) (g, n) =
     (case map_of byId pid of
        Some parent \<Rightarrow>
          relateParents byId job pids (Relate jobName (Some (item parent)) (item job) g, Suc n)
      | None \<Rightarrow> relateParents byId job pids (g, n))"

text \<open>
  \<^verbatim>\<open>graphFromJobsById\<close> ranges over the map in an order Go does not fix; the model takes
  the order of the association list.
\<close>

fun graphFromJobs :: "(int \<times> BQJob) list \<Rightarrow> (int \<times> BQJob) list \<Rightarrow> BQJob Graph
    \<Rightarrow> err + BQJob Graph" where
  "graphFromJobs byId [] g = Inr g"
| "graphFromJobs byId ((k, job) # rest) g =
     (case (case Parents job of
              None \<Rightarrow> Inr []
            | Some BadJson \<Rightarrow> Inl (Err ''invalid character'')
            | Some (Json ps) \<Rightarrow> Inr ps) of
        Inl e \<Rightarrow> Inl e
      | Inr ps \<Rightarrow>
          (case relateParents byId job ps (g, 0) of
             (g', n) \<Rightarrow>
               graphFromJobs byId rest
                 (if n = 0 then Relate jobName None (item job) g' else g')))"

definition graphFromJobsById :: "(int \<times> BQJob) list \<Rightarrow> err + BQJob Graph" where
  "graphFromJobsById byId = graphFromJobs byId byId NewGraph"

definition loadRunUnfinishedJobGraph :: "Run \<Rightarrow> Model \<Rightarrow> (err + BQJob Graph) \<times> Model" where
  "loadRunUnfinishedJobGraph r m =
     (case SelectBQJobsByRunId (Run_Id r) m of
        (Inl e, m') \<Rightarrow> (Inl e, m')
      | (Inr js, m') \<Rightarrow>
          (case unfinishedJobs r js 0 [] of
             Inl e \<Rightarrow> (Inl e, m')
           | Inr byId \<Rightarrow> (graphFromJobsById byId, m')))"

text \<open>
  The loop of \<^verbatim>\<open>processCycle\<close> over the ready items.  A table that \<^verbatim>\<open>SelectTable\<close> does
  not find is a nil pointer, which the next field access dereferences.  The results of
  \<^verbatim>\<open>queueImport\<close> and \<^verbatim>\<open>startExternalWait\<close> are dropped, as in the source.  A goroutine
  started with \<^verbatim>\<open>go monitorJob\<close> is recorded in \<open>monitors\<close>.
\<close>

fun processReady :: "BQJob Item list \<Rightarrow> Model \<Rightarrow> err option \<times> Model" where
  "processReady [] m = (None, m)"
| "processReady (sentinel # its) m = (Some Panic, m)"
| "processReady (item job # its) m =
     (if error job \<noteq> []
      then (Some (Err (''Error in table '' @ Sprintf_d (TableId job) @ '': '' @ error job)), m)
      else if BQJobId job = [] then
        (if Type job = ''load'' then
           (if GetImportStatus (TableId job) m = ImpError
            then (Some (Err (''Errors encountered during import of table ''
                              @ Sprintf_d (TableId job) @ ''.'')), m)
            else if GetImportStatus (TableId job) m = ImpNone then
              (case SelectTable (TableId job) m of
                 (Inl e, m1) \<Rightarrow> (Some e, m1)
               | (Inr None, m1) \<Rightarrow> (Some Panic, m1)
               | (Inr (Some t), m1) \<Rightarrow>
                   if IsImport t then
                     (case setRunning t True m1 of
                        (Some e, t', m2) \<Rightarrow> (Some e, m2)
                      | (None, t', m2) \<Rightarrow> processReady its (snd (queueImport t' job m2)))
                   else if IsExternal t \<and> \<not> hasExternalWait t m1 then
                     processReady its (snd (snd (startExternalWait t (Some job) m1)))
                   else processReady its m1)
            else processReady its m)
         else
           (case SelectTable (TableId job) m of
              (Inl e, m1) \<Rightarrow> (Some e, m1)
            | (Inr None, m1) \<Rightarrow> (Some Panic, m1)
            | (Inr (Some t), m1) \<Rightarrow>
                (case setRunning (t\<lparr>Table_Error := []\<rparr>) True m1 of
                   (Some e, t', m2) \<Rightarrow> (Some e, m2)
                 | (None, t', m2) \<Rightarrow>
                     (case submitJob job m2 of
                        (Some Panic, job', m3) \<Rightarrow> (Some Panic, m3)
                      | (Some (Err msg), job', m3) \<Rightarrow>
                          (Some (Err msg), snd (snd (setError t' msg m3)))
                      | (None, job', m3) \<Rightarrow>
                          processReady its (m3\<lparr>monitors := monitors m3 @ [job']\<rparr>)))))
      else processReady its m)"

text \<open>
  \<^verbatim>\<open>processCycle\<close> at the moment \<open>now\<close>: the error (\<open>None\<close> is nil), the run as the caller
  sees it afterwards, and the model.
\<close>

definition processCycle :: "time \<Rightarrow> Run \<Rightarrow> Model \<Rightarrow> err option \<times> Run \<times> Model" where
  "processCycle now r m =
     (case loadRunUnfinishedJobGraph r m of
        (Inl e, m1) \<Rightarrow> (Some e, r, m1)
      | (Inr g, m1) \<Rightarrow>
          if length g = 0 then
            (let r' = r\<lparr>Run_EndTime := Some now\<rparr> in
             case UpdateRun r' m1 of (e, m2) \<Rightarrow> (e, r', m2))
          else
            (case ReadyItems jobName g of
               Inl e \<Rightarrow> (Some e, r, m1)
             | Inr (g', ready, Some e) \<Rightarrow> (Some e, r, m1)
             | Inr (g', ready, None) \<Rightarrow>
                 (case processReady ready m1 of (e, m2) \<Rightarrow> (e, r, m2))))"

section \<open>Notions for stating properties of the run coordinator\<close>

text \<open>
  The jobs the model has started so far: those the warehouse accepted, those queued for
  import, and those registered with an external wait.
\<close>

definition startedJobs :: "Model \<Rightarrow> BQJob set" where
  "startedJobs m =
     fst ` set (bqStarted m) \<union> imp_job ` set (importQueue m) \<union>
     {j. \<exists>k w. fmlookup (externalWaits m) k = Some w \<and> ew_job w = Some j}"

text \<open>
  The jobs of a run in the order \<^verbatim>\<open>SelectBQJobsByRunId\<close> returns them (by id).
\<close>

definition runJobs :: "Run \<Rightarrow> Model \<Rightarrow> BQJob list" where
  "runJobs r m = sort_key Id (filter (\<lambda>j. RunId j = Some (Run_Id r)) (jobs m))"

text \<open>
  A job counts as an error of the run when its cached error is not empty and does not
  carry the schema-mismatch marker.
\<close>

definition errorBearing :: "BQJob \<Rightarrow> bool" where
  "errorBearing j =
     (case cacheStatus j of
        Inl e \<Rightarrow> False
      | Inr j' \<Rightarrow> error j' \<noteq> [] \<and> \<not> Contains (error j') bqSchemaErr)"

text \<open>
  A job \<open>pj\<close> is within the error budget of a resumed run: the run tolerates errors at
  all (\<^verbatim>\<open>maxErrCnt\<close> is not zero) and, when \<^verbatim>\<open>maxErrCnt\<close> is positive, the number of errors
  among the jobs of the run up to and including \<open>pj\<close> does not exceed it.
\<close>

definition withinBudget :: "Run \<Rightarrow> BQJob list \<Rightarrow> BQJob \<Rightarrow> bool" where
  "withinBudget r js pj \<longleftrightarrow>
     maxErrCnt r \<noteq> 0 \<and>
     (0 < maxErrCnt r \<longrightarrow>
        (\<forall>i < length js. js ! i = pj \<longrightarrow>
           int (length (filter errorBearing (take (Suc i) js))) \<le> maxErrCnt r))"

section \<open>Polling a job: the back-off (pause, waitForJob)\<close>

text \<open>
  \<^verbatim>\<open>pause\<close> computes in \<^verbatim>\<open>float64\<close>.  A \<^verbatim>\<open>float64\<close> value is modelled by the rational number
  it denotes, and a floating-point operation by the exact operation followed by
  \<open>float64\<close>, the rounding of IEEE 754 binary64: to the nearest multiple of the unit in
  the last place of the argument (53 significant bits; the spacing \<^verbatim>\<open>2^-1074\<close> of the
  subnormal numbers at the bottom), a tie going to the even multiple.  The same function
  is the conversion of an integer and of an untyped constant to \<^verbatim>\<open>float64\<close>.  Infinities,
  NaN and the sign of zero are left out: for an \<^verbatim>\<open>int64\<close> duration and a draw in
  \<open>[0, 1)\<close> every intermediate value of \<^verbatim>\<open>pause\<close> is below \<^verbatim>\<open>2^45\<close> in magnitude, and the
  sign of a zero changes no later result.  Go permits an implementation to fuse a
  multiplication with the subtraction that follows it; the model rounds every operation
  on its own, as the compiler does for amd64.
\<close>

text \<open>
  The binary exponent of a rational \<open>x \<noteq> 0\<close>: the \<open>e\<close> with \<open>2 powi e \<le> \<bar>x\<bar> < 2 powi (e + 1)\<close>,
  found from the bit lengths of numerator and denominator.
\<close>

definition expo :: "rat \<Rightarrow> int" where
  "expo x =
     (case quotient_of \<bar>x\<bar> of
        (a, b) \<Rightarrow>
          (let e = bitlen a - bitlen b in if 2 powi e \<le> \<bar>x\<bar> then e else e - 1))"

text \<open>The unit in the last place of the \<^verbatim>\<open>float64\<close> numbers around \<open>x\<close>.\<close>

definition ulp :: "rat \<Rightarrow> rat" where
  "ulp x = 2 powi (max (expo x - 52) (- 1074))"

text \<open>The integer nearest to \<open>q\<close>, the even one of two that are equally near.\<close>

definition roundEven :: "rat \<Rightarrow> int" where
  "roundEven q =
     (let n = \<lfloor>q\<rfloor>; f = q - of_int n in
      if f < 1 / 2 then n else if 1 / 2 < f then n + 1 else if even n then n else n + 1)"

definition float64 :: "rat \<Rightarrow> rat" where
  "float64 x = of_int (roundEven (x / ulp x)) * ulp x"

text \<open>
  Go's integer division and its conversion from \<^verbatim>\<open>float64\<close> to \<^verbatim>\<open>int64\<close> both truncate
  toward zero.
\<close>

definition Millisecond :: duration where
  "Millisecond = 1000000"

definition quot :: "int \<Rightarrow> int \<Rightarrow> int" where
  "quot a b = (if a < 0 then - ((- a) div b) else a div b)"

definition truncate_rat :: "rat \<Rightarrow> int" where
  "truncate_rat x = (if x < 0 then \<lceil>x\<rceil> else \<lfloor>x\<rfloor>)"

text \<open>
  The untyped constants of \<^verbatim>\<open>pause\<close>, as the \<^verbatim>\<open>float64\<close> values the arithmetic uses.
  \<^verbatim>\<open>baseBackoff\<close> is declared and used nowhere.
\<close>

definition maxBackoff :: rat where
  "maxBackoff = float64 15000"

definition baseBackoff :: rat where
  "baseBackoff = float64 250"

definition backoffGrowthFactor :: rat where
  "backoffGrowthFactor = float64 (18 / 10)"

definition backoffGrowthDamper :: rat where
  "backoffGrowthDamper = float64 (25 / 100)"

text \<open>
  \<^verbatim>\<open>pause\<close>; \<open>rnd\<close> is the value of \<^verbatim>\<open>rand.Float64()\<close>, a \<^verbatim>\<open>float64\<close> in \<open>[0, 1)\<close>.  The
  conversion \<^verbatim>\<open>time.Duration(bo)\<close> is in the range of \<^verbatim>\<open>int64\<close> for every \<^verbatim>\<open>int64\<close>
  duration \<open>b\<close>; the multiplication by \<^verbatim>\<open>time.Millisecond\<close> is in \<^verbatim>\<open>int64\<close>.
\<close>

definition pause :: "duration \<Rightarrow> rat \<Rightarrow> duration" where
  "pause b rnd =
     (let bo = float64 (of_int (quot b 1000000));
          bo = float64 (bo * backoffGrowthFactor);
          bo = float64 (bo - float64 (float64 (bo * rnd) * backoffGrowthDamper));
          bo = min bo maxBackoff
      in toInt64 (truncate_rat bo * Millisecond))"

text \<open>
  The intervals \<^verbatim>\<open>waitForJob\<close> sleeps, one per iteration of its loop, for the random
  draws \<open>rnds\<close>: the loop starts with \<^verbatim>\<open>backoff = time.Second\<close> and feeds every delay
  back into \<^verbatim>\<open>pause\<close>.
\<close>

fun backoffs :: "duration \<Rightarrow> rat list \<Rightarrow> duration list" where
  "backoffs b [] = []"
| "backoffs b (rnd # rnds) = pause b rnd # backoffs (pause b rnd) rnds"

definition waitIntervals :: "rat list \<Rightarrow> duration list" where
  "waitIntervals rnds = backoffs Second rnds"

section \<open>Encryption of stored secrets (package crypto)\<close>

text \<open>
  \<^verbatim>\<open>padRight\<close> appends the pad until the text is longer than \<open>l\<close>; with an empty pad the
  loop does not end, so the model returns an option.
\<close>

definition keyPad :: string where
  "keyPad = ''l@te f33 app13z @f+r''"

partial_function (option) padRight :: "string \<Rightarrow> string \<Rightarrow> nat \<Rightarrow> string option" where
  "padRight s p l =
     (let s' = s @ p in if l < length s' then Some (take l s') else padRight s' p l)"

text \<open>
  What the functions take from the standard library: AES-GCM sealing and opening (for a
  key, a nonce and a text), the random source, and URL-safe base64.  A Go string is a
  sequence of bytes, as \<open>string\<close> is here.
\<close>

record cryptoLib =
  NonceSize :: nat
  Seal :: "string \<Rightarrow> string \<Rightarrow> string \<Rightarrow> string"
  Open :: "string \<Rightarrow> string \<Rightarrow> string \<Rightarrow> string option"
  ReadFull :: "nat \<Rightarrow> string option"
  EncodeToString :: "string \<Rightarrow> string"
  DecodeString :: "string \<Rightarrow> string option"

definition deriveKey :: "string \<Rightarrow> (err + string) option" where
  "deriveKey secret =
     (case padRight secret keyPad 32 of
        None \<Rightarrow> None
      | Some padded \<Rightarrow> Some (if length padded < 32 then Inl Panic else Inr (take 32 padded)))"

definition NewCipher :: "string \<Rightarrow> err option" where
  "NewCipher key =
     (if length key = 16 \<or> length key = 24 \<or> length key = 32 then None
      else Some (Err (''crypto/aes: invalid key size '' @ Sprintf_d (int (length key)))))"

definition EncryptString :: "cryptoLib \<Rightarrow> string \<Rightarrow> string \<Rightarrow> (err + string) option" where
  "EncryptString lib text secret =
     (if length secret < 8 then Some (Inl (Err ''secret too short''))
      else case deriveKey secret of
        None \<Rightarrow> None
      | Some (Inl e) \<Rightarrow> Some (Inl e)
      | Some (Inr key) \<Rightarrow>
          (case NewCipher key of
             Some e \<Rightarrow> Some (Inl e)
           | None \<Rightarrow>
               (case ReadFull lib (NonceSize lib) of
                  None \<Rightarrow> Some (Inl (Err ''unexpected EOF''))
                | Some nonce \<Rightarrow>
                    Some (Inr (EncodeToString lib (nonce @ Seal lib key nonce text))))))"

definition DecryptString :: "cryptoLib \<Rightarrow> string \<Rightarrow> string \<Rightarrow> (err + string) option" where
  "DecryptString lib text secret =
     (case deriveKey secret of
        None \<Rightarrow> None
      | Some (Inl e) \<Rightarrow> Some (Inl e)
      | Some (Inr key) \<Rightarrow>
          (case DecodeString lib text of
             None \<Rightarrow> Some (Inl (Err ''illegal base64 data''))
           | Some ciphertext \<Rightarrow>
               (case NewCipher key of
                  Some e \<Rightarrow> Some (Inl e)
                | None \<Rightarrow>
                    if length ciphertext < NonceSize lib
                    then Some (Inl (Err (''Ciphertext too short: ''
                                         @ Sprintf_d (int (length ciphertext)))))
                    else (case Open lib key (take (NonceSize lib) ciphertext)
                                 (drop (NonceSize lib) ciphertext) of
                            None \<Rightarrow> Some (Inl (Err ''cipher: message authentication failed''))
                          | Some plaintext \<Rightarrow> Some (Inr plaintext)))))"

text \<open>A stand-in library for examples: it seals by appending sixteen bytes.\<close>

definition toyLib :: cryptoLib where
  "toyLib = \<lparr>NonceSize = 12,
     Seal = (\<lambda>k n p. p @ replicate 16 (CHR ''t'')),
     Open = (\<lambda>k n c. if length c < 16 then None else Some (take (length c - 16) c)),
     ReadFull = (\<lambda>n. Some (replicate n (CHR ''r''))),
     EncodeToString = (\<lambda>bs. bs),
     DecodeString = (\<lambda>t. Some t)\<rparr>"

section \<open>Example values\<close>

definition exConf :: JobConfiguration where
  "exConf = \<lparr>LoadSourceUris = None, confBody = ''query''\<rparr>"

definition exJob :: "int \<Rightarrow> int \<Rightarrow> int list \<Rightarrow> BQJob" where
  "exJob i tid ps =
     \<lparr>Id = i, TableId = tid, RunId = Some 1,
      Parents = (if ps = [] then None else Some (Json ps)),
      BQJobId = [], Type = ''query'', Configuration = Some (Json exConf),
      Status = None, EndTime = None, state = [], error = []\<rparr>"

definition exTable :: "int \<Rightarrow> Table" where
  "exTable tid = \<lparr>Table_Id = tid, Table_Error = [], Running = False, ImportDbId = 0,
                  ExternalTmout = 0\<rparr>"

definition exBqJob :: "string \<Rightarrow> bqJob" where
  "exBqJob i = \<lparr>bqId = i, bqConfiguration = Some exConf,
               bqStatus = Some \<lparr>State = ''RUNNING'', ErrorResult = None\<rparr>,
               bqStatisticsEndTime = Some 0\<rparr>"

text \<open>
  A warehouse whose first answer is the temporary error and which accepts every later
  job; below, \<open>steadyWarehouse\<close> accepts every job.
\<close>

definition flakyOnce :: "nat \<Rightarrow> string + bqJob" where
  "flakyOnce n =
     (if n = 0 then Inl ''The server encountered a temporary error and could not complete your request''
      else Inr (exBqJob ''proj:US.job_1''))"

definition exModel :: "BQJob list \<Rightarrow> Table list \<Rightarrow> (nat \<Rightarrow> string + bqJob) \<Rightarrow> Model" where
  "exModel js ts answers =
     \<lparr>jobs = js, tables = ts, runs = [], imports_map = fmempty, importQueue = [],
      externalWaits = fmempty, nextChan = 0, waiters = [], monitors = [],
      bqAnswers = answers, bqCalls = 0, bqStarted = [],
      dbAnswers = (\<lambda>_. None), dbCalls = 0\<rparr>"

definition exRun :: Run where
  "exRun = \<lparr>Run_Id = 1, Run_EndTime = None, maxErrCnt = 0\<rparr>"

text \<open>Two cycles back to back on a run of one query job, against the warehouse above.\<close>

definition cycle1 :: "err option \<times> Run \<times> Model" where
  "cycle1 = processCycle 5 exRun (exModel [exJob 1 7 []] [exTable 7] flakyOnce)"

definition cycle2 :: "err option \<times> Run \<times> Model" where
  "cycle2 = processCycle 6 (fst (snd cycle1)) (snd (snd cycle1))"

text \<open>
  A graph of items that are their own names, built by \<^verbatim>\<open>Relate(a, b)\<close>, \<^verbatim>\<open>Relate(b, a)\<close>,
  \<^verbatim>\<open>Relate(r, a)\<close>: the node \<open>r\<close> has no parents and leads into the cycle of \<open>a\<close> and \<open>b\<close>.
  The same shape as a run: three unsubmitted query jobs, of table 1 without parents, of
  table 2 with the parents 1 and 3, and of table 3 with the parent 2.
\<close>

definition upstreamCycle :: "string Graph" where
  "upstreamCycle =
     Relate id (Some (item ''r'')) (item ''a'')
       (Relate id (Some (item ''b'')) (item ''a'')
         (Relate id (Some (item ''a'')) (item ''b'') NewGraph))"

definition steadyWarehouse :: "nat \<Rightarrow> string + bqJob" where
  "steadyWarehouse n = Inr (exBqJob ''proj:US.job_2'')"

definition upstreamCycleRun :: "err option \<times> Run \<times> Model" where
  "upstreamCycleRun =
     processCycle 5 exRun
       (exModel [exJob 1 1 [], exJob 2 2 [1, 3], exJob 3 3 [2]]
          [exTable 1, exTable 2, exTable 3] steadyWarehouse)"

text \<open>An external table with a timeout of one hour, and the wait started for it.\<close>

definition exExternal :: Table where
  "exExternal = \<lparr>Table_Id = 9, Table_Error = [], Running = False, ImportDbId = 0,
                  ExternalTmout = 3600\<rparr>"

definition exWaiting :: "err option \<times> Table \<times> Model" where
  "exWaiting = startExternalWait exExternal None (exModel [] [exExternal] flakyOnce)"



text \<open>
  A resumed run that tolerates one error, with three jobs: a load job of table 7 that is
  done with the error "boom", a load job of table 8 that is done with a schema-mismatch
  error, and an unsubmitted query job of table 9 whose parents are the tables 7 and 8.
\<close>

definition exDone :: "int \<Rightarrow> int \<Rightarrow> string \<Rightarrow> BQJob" where
  "exDone i tid msg =
     (exJob i tid [])\<lparr>BQJobId := ''job_0'', Type := ''load'',
        Status := Some (Json \<lparr>State = ''DONE'', ErrorResult = Some msg\<rparr>),
        EndTime := Some 1\<rparr>"

definition resumedRun :: Run where
  "resumedRun = \<lparr>Run_Id = 1, Run_EndTime = None, maxErrCnt = 1\<rparr>"

definition errorParents :: Model where
  "errorParents =
     exModel [exDone 1 7 ''boom'', exDone 2 8 ''Provided Schema does not match Table ds.t'',
              exJob 3 9 [7, 8]]
       [exTable 7, exTable 8, exTable 9] steadyWarehouse"

definition errorParentsCycle :: "err option \<times> Run \<times> Model" where
  "errorParentsCycle = processCycle 5 resumedRun errorParents"

text \<open>
  The same run when the job of table 8 is done with the error "bang" instead: two errors
  against a budget of one.
\<close>

definition overBudget :: Model where
  "overBudget =
     exModel [exDone 1 7 ''boom'', exDone 2 8 ''bang'', exJob 3 9 [7, 8]]
       [exTable 7, exTable 8, exTable 9] steadyWarehouse"

definition overBudgetCycle :: "err option \<times> Run \<times> Model" where
  "overBudgetCycle = processCycle 5 resumedRun overBudget"

section \<open>Theorems\<close>

subsection \<open>Graphs: lookups, traversal and scores\<close>

lemma getItem_None_iff: "getItem g x = None \<longleftrightarrow> x \<notin> keys g"
  by (simp add: getItem_def keys_def map_of_eq_None_iff)

lemma getItem_addItem:
  "getItem (addItem nm t g) x =
     (if x = GetName nm t \<and> getItem g x = None then Some (newNode t) else getItem g x)"
  by (cases "map_of g x"; cases "map_of g (GetName nm t)")
    (auto simp add: addItem_def getItem_def map_add_def)

lemma keys_addItem: "keys (addItem nm t g) = insert (GetName nm t) (keys g)"
  by (auto simp: addItem_def keys_def getItem_def map_of_eq_None_iff)

lemma distinct_addItem: "distinct (map fst g) \<Longrightarrow> distinct (map fst (addItem nm t g))"
  by (auto simp: addItem_def getItem_def map_of_eq_None_iff)

lemma getItem_map_entry:
  "getItem (AList.map_entry k f g) x = (if x = k then map_option f (getItem g k) else getItem g x)"
  by (auto simp: getItem_def map_of_map_entry split: option.splits)

lemma keys_map_entry: "keys (AList.map_entry k f g) = keys g"
  by (simp add: keys_def dom_map_entry)

lemma getItem_Relate_None:
  "getItem (Relate nm None c g) x =
     (if x = GetName nm c then Some (nodeOr nm g c) else getItem g x)"
  by (auto simp: Relate_def getItem_addItem nodeOr_def split: option.splits)

lemma getItem_Relate_Some:
  "getItem (Relate nm (Some p) c g) x =
     (if GetName nm c = GetName nm p
      then (if x = GetName nm c
            then Some (addChild (GetName nm c) (addParent (GetName nm p) (nodeOr nm g c)))
            else getItem g x)
      else if x = GetName nm c then Some (addParent (GetName nm p) (nodeOr nm g c))
      else if x = GetName nm p then Some (addChild (GetName nm c) (nodeOr nm g p))
      else getItem g x)"
  by (auto simp: Relate_def Let_def getItem_map_entry getItem_addItem nodeOr_def
      split: option.splits)

lemma keys_Relate:
  "keys (Relate nm parent c g) =
     (case parent of None \<Rightarrow> {} | Some p \<Rightarrow> {GetName nm p}) \<union> insert (GetName nm c) (keys g)"
  by (auto simp: Relate_def Let_def keys_map_entry keys_addItem split: option.splits)

lemma distinct_Relate: "distinct (map fst g) \<Longrightarrow> distinct (map fst (Relate nm parent c g))"
  by (auto simp: Relate_def Let_def distinct_map_entry distinct_addItem split: option.splits)




lemma wfGraph_NewGraph: "wfGraph nm NewGraph"
  by (auto simp: wfGraph_def NewGraph_def getItem_def edges_def nbrRel_def keys_def)

lemma set_addKey: "set (addKey k ks) = insert k (set ks)"
  by (auto simp: addKey_def)

lemma in_nbrRel: "(a, b) \<in> nbrRel g nbrs \<longleftrightarrow> (\<exists>n. getItem g a = Some n \<and> b \<in> set (nbrs n))"
  by (simp add: nbrRel_def)

lemma nodeOr_children:
  "b \<in> set (children (nodeOr nm g t))
     \<longleftrightarrow> (\<exists>n. getItem g (GetName nm t) = Some n \<and> b \<in> set (children n))"
  by (auto simp: nodeOr_def newNode_def split: option.splits)

lemma nodeOr_parents:
  "b \<in> set (parents (nodeOr nm g t))
     \<longleftrightarrow> (\<exists>n. getItem g (GetName nm t) = Some n \<and> b \<in> set (parents n))"
  by (auto simp: nodeOr_def newNode_def split: option.splits)

lemma nodeOr_Item:
  "\<forall>k n. getItem g k = Some n \<longrightarrow> GetName nm (Item n) = k
    \<Longrightarrow> GetName nm (Item (nodeOr nm g t)) = GetName nm t"
  by (auto simp: nodeOr_def newNode_def split: option.splits)

lemma children_Relate_Some:
  "nbrRel (Relate nm (Some p) c g) children
     = insert (GetName nm p, GetName nm c) (nbrRel g children)"
proof -
  have "(a, b) \<in> nbrRel (Relate nm (Some p) c g) children
      \<longleftrightarrow> (a, b) \<in> insert (GetName nm p, GetName nm c) (nbrRel g children)" for a b
    by (simp add: in_nbrRel getItem_Relate_Some addChild_def addParent_def set_addKey
        nodeOr_children)
  then show ?thesis by auto
qed

lemma parents_Relate_Some:
  "nbrRel (Relate nm (Some p) c g) parents
     = insert (GetName nm c, GetName nm p) (nbrRel g parents)"
proof -
  have "(a, b) \<in> nbrRel (Relate nm (Some p) c g) parents
      \<longleftrightarrow> (a, b) \<in> insert (GetName nm c, GetName nm p) (nbrRel g parents)" for a b
    by (simp add: in_nbrRel getItem_Relate_Some addChild_def addParent_def set_addKey
        nodeOr_parents)
  then show ?thesis by auto
qed

lemma children_Relate_None: "nbrRel (Relate nm None c g) children = nbrRel g children"
proof -
  have "(a, b) \<in> nbrRel (Relate nm None c g) children \<longleftrightarrow> (a, b) \<in> nbrRel g children" for a b
    by (simp add: in_nbrRel getItem_Relate_None nodeOr_children)
  then show ?thesis by auto
qed

lemma parents_Relate_None: "nbrRel (Relate nm None c g) parents = nbrRel g parents"
proof -
  have "(a, b) \<in> nbrRel (Relate nm None c g) parents \<longleftrightarrow> (a, b) \<in> nbrRel g parents" for a b
    by (simp add: in_nbrRel getItem_Relate_None nodeOr_parents)
  then show ?thesis by auto
qed

lemma names_Relate:
  assumes "\<forall>k n. getItem g k = Some n \<longrightarrow> GetName nm (Item n) = k"
    and "getItem (Relate nm parent c g) k = Some n"
  shows "GetName nm (Item n) = k"
proof (cases parent)
  case None
  with assms nodeOr_Item [OF assms(1), of c] show ?thesis
    by (auto simp: getItem_Relate_None split: if_splits)
next
  case (Some p)
  with assms nodeOr_Item [OF assms(1), of c] nodeOr_Item [OF assms(1), of p] show ?thesis
    by (auto simp: getItem_Relate_Some addChild_def addParent_def split: if_splits)
qed

lemma wfGraph_Relate:
  assumes "wfGraph nm g"
  shows "wfGraph nm (Relate nm parent c g)"
proof -
  from assms have d: "distinct (map fst g)"
    and n: "\<forall>k n. getItem g k = Some n \<longrightarrow> GetName nm (Item n) = k"
    and e: "nbrRel g children \<subseteq> keys g \<times> keys g"
    and s: "nbrRel g parents = (nbrRel g children)\<inverse>"
    by (simp_all add: wfGraph_def edges_def)
  have d': "distinct (map fst (Relate nm parent c g))"
    using d by (rule distinct_Relate)
  have n': "\<forall>k n. getItem (Relate nm parent c g) k = Some n \<longrightarrow> GetName nm (Item n) = k"
    using names_Relate [OF n] by blast
  have e': "nbrRel (Relate nm parent c g) children
      \<subseteq> keys (Relate nm parent c g) \<times> keys (Relate nm parent c g)"
  proof (cases parent)
    case None
    with e show ?thesis by (auto simp: children_Relate_None keys_Relate)
  next
    case (Some p)
    with e show ?thesis by (auto simp: children_Relate_Some keys_Relate)
  qed
  have s': "nbrRel (Relate nm parent c g) parents = (nbrRel (Relate nm parent c g) children)\<inverse>"
  proof (cases parent)
    case None
    with s show ?thesis by (simp add: children_Relate_None parents_Relate_None)
  next
    case (Some p)
    with s show ?thesis by (auto simp add: children_Relate_Some parents_Relate_Some)
  qed
  from d' n' e' s' show ?thesis
    by (simp add: wfGraph_def edges_def)
qed

lemma getItem_fold_delParent:
  "getItem (fold (\<lambda>c. AList.map_entry c (delParent name)) cs g) x
     = (if x \<in> set cs then map_option (delParent name) (getItem g x) else getItem g x)"
proof (induction cs arbitrary: g)
  case Nil
  then show ?case by simp
next
  case (Cons c cs)
  have idem: "delParent name (delParent name n) = delParent name n" for n :: "'a node"
    by (simp add: delParent_def)
  show ?case
    by (cases "getItem g x") (auto simp: Cons.IH getItem_map_entry idem)
qed

lemma keys_fold_delParent:
  "keys (fold (\<lambda>c. AList.map_entry c (delParent name)) cs g) = keys g"
  by (induction cs arbitrary: g) (simp_all add: keys_map_entry)

lemma distinct_fold_delParent:
  "distinct (map fst g) \<Longrightarrow>
   distinct (map fst (fold (\<lambda>c. AList.map_entry c (delParent name)) cs g))"
  by (induction cs arbitrary: g) (simp_all add: distinct_map_entry)

lemma getItem_delete: "getItem (AList.delete k g) x = (if x = k then None else getItem g x)"
  by (simp add: getItem_def delete_conv')

lemma wfGraph_RemoveItem:
  assumes wf: "wfGraph nm g" and r: "RemoveItem name g = Inr g'"
  shows "wfGraph nm g'"
proof (cases "getItem g name")
  case None
  with r wf show ?thesis by (simp add: RemoveItem_def)
next
  case (Some n)
  with r have np: "parents n = []"
    and g': "g' = AList.delete name (fold (\<lambda>c. AList.map_entry c (delParent name)) (children n) g)"
    by (auto simp: RemoveItem_def split: if_splits)
  from wf have d: "distinct (map fst g)"
    and nmk: "\<forall>k n. getItem g k = Some n \<longrightarrow> GetName nm (Item n) = k"
    and sub: "edges g \<subseteq> keys g \<times> keys g"
    and sym: "nbrRel g parents = (edges g)\<inverse>"
    by (simp_all add: wfGraph_def)
  have gi: "getItem g' x =
      (if x = name then None
       else if x \<in> set (children n) then map_option (delParent name) (getItem g x)
       else getItem g x)" for x
    by (simp add: g' getItem_delete getItem_fold_delParent)
  have nochild: "(a, name) \<notin> edges g" for a
  proof
    assume "(a, name) \<in> edges g"
    with sym have "(name, a) \<in> nbrRel g parents" by blast
    with Some np show False by (simp add: in_nbrRel)
  qed
  have ch: "(name, c) \<in> edges g \<longleftrightarrow> c \<in> set (children n)" for c
    using Some by (simp add: edges_def in_nbrRel)
  have E: "edges g' = {(a, b) \<in> edges g. a \<noteq> name}"
  proof -
    have "(a, b) \<in> edges g' \<longleftrightarrow> (a, b) \<in> edges g \<and> a \<noteq> name" for a b
      by (cases "getItem g a") (auto simp: edges_def in_nbrRel gi delParent_def)
    then show ?thesis by auto
  qed
  have P: "nbrRel g' parents = {(a, b) \<in> nbrRel g parents. a \<noteq> name \<and> b \<noteq> name}"
  proof -
    have "(a, b) \<in> nbrRel g' parents
        \<longleftrightarrow> (a, b) \<in> nbrRel g parents \<and> a \<noteq> name \<and> b \<noteq> name" for a b
    proof (cases "a \<in> set (children n)")
      case True
      then show ?thesis
        by (cases "getItem g a") (auto simp: in_nbrRel gi delParent_def)
    next
      case False
      with ch have "(name, a) \<notin> edges g" by simp
      with sym have "(a, name) \<notin> nbrRel g parents" by blast
      with False show ?thesis
        by (cases "getItem g a") (auto simp: in_nbrRel gi)
    qed
    then show ?thesis by auto
  qed
  have K: "keys g' = keys g - {name}"
  proof -
    have "getItem g' x = None \<longleftrightarrow> x = name \<or> getItem g x = None" for x
      by (simp add: gi)
    then have "x \<notin> keys g' \<longleftrightarrow> x = name \<or> x \<notin> keys g" for x
      by (simp add: getItem_None_iff)
    then show ?thesis by blast
  qed
  have 1: "distinct (map fst g')"
    unfolding g' by (intro distinct_delete distinct_fold_delParent d)
  have 2: "\<forall>k m. getItem g' k = Some m \<longrightarrow> GetName nm (Item m) = k"
    using nmk by (auto simp: gi delParent_def split: if_splits)
  have 3: "edges g' \<subseteq> keys g' \<times> keys g'"
    unfolding E K using sub nochild by blast
  have 4: "nbrRel g' parents = (edges g')\<inverse>"
    unfolding E P sym using nochild by blast
  from 1 2 3 4 show ?thesis
    by (simp add: wfGraph_def)
qed

lemma childSentinel_fold:
  "childSentinel nm g =
     (let g' = (if getItem g csName = None then fold (addSentinel nm) g g else g)
      in (g', if getItem g' csName = None then None else Some csName))"
  by (simp add: childSentinel_def addSentinel_def)




lemma in_set_getItem: "distinct (map fst g) \<Longrightarrow> (k, n) \<in> set g \<longleftrightarrow> getItem g k = Some n"
  by (auto simp: getItem_def dest: map_of_SomeD)












lemma fold_addSentinel_mono:
  "wfGraph nm acc \<Longrightarrow>
   wfGraph nm (fold (addSentinel nm) xs acc) \<and>
   nbrRel acc parents \<subseteq> nbrRel (fold (addSentinel nm) xs acc) parents"
proof (induction xs arbitrary: acc)
  case Nil
  then show ?case by simp
next
  case (Cons x xs)
  obtain k n where x: "x = (k, n)" by (cases x)
  have wf': "wfGraph nm (addSentinel nm x acc)"
    using Cons.prems by (simp add: addSentinel_def x wfGraph_Relate)
  have mono: "nbrRel acc parents \<subseteq> nbrRel (addSentinel nm x acc) parents"
    by (auto simp: addSentinel_def x parents_Relate_Some)
  from Cons.IH [OF wf'] mono show ?case
    by auto
qed

lemma childSentinel_mono:
  assumes "wfGraph nm g"
  shows "wfGraph nm (fst (childSentinel nm g))"
    and "nbrRel g parents \<subseteq> nbrRel (fst (childSentinel nm g)) parents"
  using assms fold_addSentinel_mono [OF assms, of g]
  by (auto simp: childSentinel_fold Let_def)

lemma scoreAll_names:
  "scoreAll g names acc = Inr res \<Longrightarrow> snd ` set res \<subseteq> snd ` set acc \<union> (set names - {csName})"
proof (induction names arbitrary: acc)
  case Nil
  then show ?case by simp
next
  case (Cons k names)
  from Cons.prems obtain acc' where a: "scoreAction g k acc = Inr acc'"
    and r: "scoreAll g names acc' = Inr res"
    by (auto split: sum.splits)
  from a have "snd ` set acc' \<subseteq> snd ` set acc \<union> ({k} - {csName})"
    by (auto simp: scoreAction_def Let_def split: sum.splits if_splits)
  with Cons.IH [OF r] show ?case
    by auto
qed

lemma Scores_names:
  assumes "Scores nm g = Inr (g', scores)"
  shows "g' = fst (childSentinel nm g)" and "csName \<notin> snd ` set scores"
proof -
  from assms obtain cs visited result where c: "childSentinel nm g = (g', cs)"
    and "scoreAll g' visited [] = Inr result"
    and s: "scores = sort_key (\<lambda>sn. - fst sn) result"
    by (auto simp: Scores_def split: prod.splits sum.splits)
  from scoreAll_names [OF this(2)] s show "csName \<notin> snd ` set scores"
    by auto
  from c show "g' = fst (childSentinel nm g)" by simp
qed

lemma readyOf_item:
  "readyOf g scores = Inr result \<Longrightarrow> it \<in> set result \<Longrightarrow>
   \<exists>sn \<in> set scores. \<exists>n. getItem g (snd sn) = Some n \<and> parents n = [] \<and> Item n = it"
proof (induction scores arbitrary: result)
  case Nil
  then show ?case by simp
next
  case (Cons sn scores)
  from Cons.prems(1) obtain n rest where n: "getItem g (snd sn) = Some n"
    and rest: "readyOf g scores = Inr rest"
    and res: "result = (if length (parents n) = 0 then Item n # rest else rest)"
    by (auto split: option.splits sum.splits)
  show ?case
  proof (cases "it \<in> set rest")
    case True
    from Cons.IH [OF rest True] show ?thesis by auto
  next
    case False
    with Cons.prems(2) res have "parents n = []" "Item n = it"
      by (auto split: if_splits)
    with n show ?thesis by auto
  qed
qed

lemma ReadyItems_no_parent:
  assumes wf: "wfGraph nm g" and r: "ReadyItems nm g = Inr (g', ready, e)"
    and it: "item j \<in> set ready"
  shows "(nm j, p) \<notin> nbrRel g parents"
proof
  assume p: "(nm j, p) \<in> nbrRel g parents"
  from r obtain scores where s: "Scores nm g = Inr (g', scores)"
    and ro: "readyOf g' scores = Inr ready"
    by (auto simp: ReadyItems_def split: sum.splits prod.splits)
  note g' = Scores_names(1) [OF s]
  from childSentinel_mono [OF wf] g' have wf': "wfGraph nm g'"
    and mono: "nbrRel g parents \<subseteq> nbrRel g' parents"
    by simp_all
  from readyOf_item [OF ro it] obtain sn :: scoreName and n
    where n: "getItem g' (snd sn) = Some n"
    "parents n = []" "Item n = item j"
    by blast
  from wf' n(1) have "GetName nm (Item n) = snd sn"
    by (simp add: wfGraph_def)
  with n(3) have "snd sn = nm j" by simp
  with n(1) have "getItem g' (nm j) = Some n" by simp
  moreover from p mono have "(nm j, p) \<in> nbrRel g' parents" by blast
  ultimately show False
    using n(2) by (auto simp: in_nbrRel)
qed

lemma itemsIn_Relate:
  assumes "itemsIn S g" "c \<in> S" "\<forall>p. parent = Some p \<longrightarrow> p \<in> S"
  shows "itemsIn S (Relate nm parent c g)"
proof -
  have no: "Item (nodeOr nm g t) \<in> S" if "t \<in> S" for t
    using assms(1) that by (auto simp: nodeOr_def newNode_def itemsIn_def split: option.splits)
  show ?thesis
  proof (cases parent)
    case None
    with assms(1) no [OF assms(2)] show ?thesis
      by (auto simp: itemsIn_def getItem_Relate_None split: if_splits)
  next
    case (Some p)
    with assms(3) have "p \<in> S" by simp
    with Some assms(1) no [OF assms(2)] no [OF \<open>p \<in> S\<close>] show ?thesis
      by (auto simp: itemsIn_def getItem_Relate_Some addChild_def addParent_def split: if_splits)
  qed
qed

lemma itemsIn_fold_addSentinel:
  assumes "itemsIn S acc" "sentinel \<in> S" "\<forall>(k, n) \<in> set xs. Item n \<in> S"
  shows "itemsIn S (fold (addSentinel nm) xs acc)"
  using assms
proof (induction xs arbitrary: acc)
  case Nil
  then show ?case by simp
next
  case (Cons x xs)
  obtain k n where x: "x = (k, n)" by (cases x)
  from Cons.prems x have "Item n \<in> S" by simp
  with Cons.prems(1,2) have "itemsIn S (addSentinel nm x acc)"
    by (auto simp: addSentinel_def x intro!: itemsIn_Relate)
  from Cons.IH [OF this Cons.prems(2)] Cons.prems(3) show ?case
    by simp
qed

lemma itemsIn_childSentinel:
  assumes wf: "wfGraph nm g" and it: "itemsIn S g"
  shows "itemsIn (insert sentinel S) (fst (childSentinel nm g))"
proof -
  from wf have d: "distinct (map fst g)" by (simp add: wfGraph_def)
  have 1: "itemsIn (insert sentinel S) g"
    using it by (simp add: itemsIn_def)
  have 2: "\<forall>(k, n) \<in> set g. Item n \<in> insert sentinel S"
    using it in_set_getItem [OF d] by (auto simp: itemsIn_def)
  from itemsIn_fold_addSentinel [OF 1 _ 2] 1 show ?thesis
    by (simp add: childSentinel_fold Let_def)
qed

lemma parents_Relate_mono: "nbrRel g parents \<subseteq> nbrRel (Relate nm parent c g) parents"
  by (cases parent) (auto simp: parents_Relate_None parents_Relate_Some)








subsection \<open>Scores\<close>




subsection \<open>Calendar conditions\<close>

lemma len_map_pos_iff: "0 < len_map m \<longleftrightarrow> fmdom m \<noteq> {||}"
  by (cases "fmdom m = {||}") (auto simp: len_map_def fcard_fempty simp flip: fcard_0_eq)

text \<open>
  Claim C8.  \<^verbatim>\<open>Satisfied\<close> returns true if and only if, for each of the four calendar
  maps that has at least one entry, the corresponding field of the moment is a member
  (is mapped to true); a condition whose four maps are all empty is satisfied by every
  moment.
\<close>

theorem Satisfied_iff:
  "(Satisfied c now \<longleftrightarrow>
      (fmdom (Months c) \<noteq> {||} \<longrightarrow> index_map (Months c) (Month now)) \<and>
      (fmdom (Weekdays c) \<noteq> {||} \<longrightarrow> index_map (Weekdays c) (Weekday now)) \<and>
      (fmdom (Days c) \<noteq> {||} \<longrightarrow> index_map (Days c) (Day now)) \<and>
      (fmdom (Hours c) \<noteq> {||} \<longrightarrow> index_map (Hours c) (Hour now))) \<and>
   (Satisfied \<lparr>Months = fmempty, Weekdays = fmempty, Days = fmempty, Hours = fmempty\<rparr> now)"
  by (simp add: Satisfied_def len_map_pos_iff)

theorem Satisfied_iff_witness:
  "fmdom (fmupd 1 True fmempty :: boolmap) \<noteq> {||} \<and>
   fmdom (fmupd 9 True fmempty :: boolmap) \<noteq> {||} \<and>
   Satisfied \<lparr>Months = fmempty, Weekdays = fmupd 1 True fmempty, Days = fmempty,
              Hours = fmupd 9 True fmempty\<rparr>
     \<lparr>Month = 8, Weekday = 1, Day = 28, Hour = 9\<rparr> \<and>
   \<not> Satisfied \<lparr>Months = fmempty, Weekdays = fmupd 1 True fmempty, Days = fmempty,
              Hours = fmupd 9 True fmempty\<rparr>
     \<lparr>Month = 8, Weekday = 1, Day = 28, Hour = 10\<rparr>"
  using Satisfied_iff [of "\<lparr>Months = fmempty, Weekdays = fmupd 1 True fmempty, Days = fmempty,
              Hours = fmupd 9 True fmempty\<rparr>" "\<lparr>Month = 8, Weekday = 1, Day = 28, Hour = 9\<rparr>"]
    Satisfied_iff [of "\<lparr>Months = fmempty, Weekdays = fmupd 1 True fmempty, Days = fmempty,
              Hours = fmupd 9 True fmempty\<rparr>" "\<lparr>Month = 8, Weekday = 1, Day = 28, Hour = 10\<rparr>"]
  by (simp add: index_map_def)

subsection \<open>The frequency ticker\<close>

text \<open>
  Claim C7.  With \<open>floor(now, period) = period * (now div period)\<close> for a positive period,
  \<^verbatim>\<open>next\<close> is \<open>floor + offset\<close> when that is strictly after \<open>now\<close> and
  \<open>floor + period + offset\<close> otherwise.  With a period of 30 minutes: at 11:30:00 and
  offset 0 the next firing is 12:00:00; at 11:29:59.9999 it is 11:30:00; at 11:30:00 with
  offset -60 s the iteration sleeps the 29 minutes until 11:59:00 and sends its tick.
\<close>

theorem tickerNext_spec:
  "(0 < Period fr \<longrightarrow>
      tickerNext fr now =
        (if now < Period fr * (now div Period fr) + Offset fr
         then Period fr * (now div Period fr) + Offset fr
         else Period fr * (now div Period fr) + Period fr + Offset fr)) \<and>
   tickerNext \<lparr>Period = 30 * Minute, Offset = 0\<rparr> (clock d 11 30 0 0) = clock d 12 0 0 0 \<and>
   tickerNext \<lparr>Period = 30 * Minute, Offset = 0\<rparr> (clock d 11 29 59 999900000)
     = clock d 11 30 0 0 \<and>
   tickerNext \<lparr>Period = 30 * Minute, Offset = - 60 * Second\<rparr> (clock d 11 30 0 0)
     = clock d 11 59 0 0 \<and>
   runTickerStep \<lparr>Period = 30 * Minute, Offset = - 60 * Second\<rparr> (clock d 11 30 0 0)
     = SleepAndSend (29 * Minute)
         \<lparr>freq = \<lparr>Period = 30 * Minute, Offset = - 60 * Second\<rparr>,
          tooLate = clock d 12 29 0 0\<rparr>"
proof -
  have trunc: "0 < p \<Longrightarrow> Truncate t p = p * (t div p)" for t p :: int
    by (simp add: Truncate_def minus_mod_eq_mult_div)
  have general: "0 < Period fr \<longrightarrow>
      tickerNext fr now =
        (if now < Period fr * (now div Period fr) + Offset fr
         then Period fr * (now div Period fr) + Offset fr
         else Period fr * (now div Period fr) + Period fr + Offset fr)"
    by (simp add: tickerNext_def trunc After_def Add_def)
  have a: "clock d 11 30 0 0 = 1800000000000 * (48 * d + 23)"
    by (simp add: clock_def algebra_simps)
  have b: "clock d 11 29 59 999900000 = 1800000000000 * (48 * d + 22) + 1799999900000"
    by (simp add: clock_def algebra_simps)
  have tr: "0 < p \<Longrightarrow> 0 \<le> r \<Longrightarrow> r < p \<Longrightarrow> Truncate (p * k + r) p = p * k"
    for p k r :: int
    by (simp add: Truncate_def)
  have ta: "Truncate (clock d 11 30 0 0) (30 * Minute) = clock d 11 30 0 0"
    unfolding a by (simp add: Truncate_def Minute_def Second_def)
  have "Truncate (clock d 11 29 59 999900000) (30 * Minute) = 1800000000000 * (48 * d + 22)"
    unfolding b using tr [of 1800000000000 1799999900000 "48 * d + 22"]
    by (simp add: Minute_def Second_def)
  then have tb: "Truncate (clock d 11 29 59 999900000) (30 * Minute) = clock d 11 0 0 0"
    by (simp add: clock_def algebra_simps)
  have c1: "tickerNext \<lparr>Period = 30 * Minute, Offset = 0\<rparr> (clock d 11 30 0 0)
      = clock d 12 0 0 0"
    by (simp add: tickerNext_def ta After_def Add_def)
      (simp add: clock_def Minute_def Second_def)
  have c2: "tickerNext \<lparr>Period = 30 * Minute, Offset = 0\<rparr> (clock d 11 29 59 999900000)
      = clock d 11 30 0 0"
    by (simp add: tickerNext_def tb After_def Add_def)
      (simp add: clock_def Minute_def Second_def)
  have c3: "tickerNext \<lparr>Period = 30 * Minute, Offset = - 60 * Second\<rparr> (clock d 11 30 0 0)
      = clock d 11 59 0 0"
    by (simp add: tickerNext_def ta After_def Add_def)
      (simp add: clock_def Minute_def Second_def)
  have c4: "runTickerStep \<lparr>Period = 30 * Minute, Offset = - 60 * Second\<rparr> (clock d 11 30 0 0)
     = SleepAndSend (29 * Minute)
         \<lparr>freq = \<lparr>Period = 30 * Minute, Offset = - 60 * Second\<rparr>,
          tooLate = clock d 12 29 0 0\<rparr>"
    unfolding runTickerStep_def Let_def c3
    by (simp add: Before_def Add_def clock_def Minute_def Second_def)
  from general c1 c2 c3 c4 show ?thesis by blast
qed

theorem tickerNext_spec_witness:
  "0 < Period \<lparr>Period = 30 * Minute, Offset = 0\<rparr> \<and>
   tickerNext \<lparr>Period = 30 * Minute, Offset = 0\<rparr> 1800000000001 = 3600000000000"
  using tickerNext_spec [of "\<lparr>Period = 30 * Minute, Offset = 0\<rparr>" 1800000000001 0]
  by (simp add: Minute_def Second_def)

subsection \<open>Submitting a job\<close>

text \<open>
  Claim C10.  When the first \<^verbatim>\<open>StartJob\<close> call fails with an error containing
  "server encountered a temporary error" and the retry succeeds, \<^verbatim>\<open>submitJob\<close> returns
  nil, the job is unchanged (its warehouse-side id is not set) and the catalog is neither
  called nor changed, although the warehouse has accepted the job.  Whenever the first
  call does not succeed, the job and the catalog stay as they were: the catalog write of
  the warehouse-side id happens only when the first call succeeds.
\<close>

theorem submitJob_retry_frame:
  "(getConfig job = Inr conf \<and> bqAnswers m (bqCalls m) = Inl e \<and>
    Contains e ''server encountered a temporary error'' \<and>
    bqAnswers m (Suc (bqCalls m)) = Inr b \<longrightarrow>
      submitJob job m =
        (None, job, m\<lparr>bqCalls := Suc (Suc (bqCalls m)), bqStarted := bqStarted m @ [(job, b)]\<rparr>)) \<and>
   ((\<forall>b. bqAnswers m (bqCalls m) \<noteq> Inr b) \<longrightarrow>
      fst (snd (submitJob job m)) = job \<and>
      jobs (snd (snd (submitJob job m))) = jobs m \<and>
      dbCalls (snd (snd (submitJob job m))) = dbCalls m)"
proof -
  have retry: "getConfig job = Inr conf \<and> bqAnswers m (bqCalls m) = Inl e \<and>
    Contains e ''server encountered a temporary error'' \<and>
    bqAnswers m (Suc (bqCalls m)) = Inr b \<longrightarrow>
      submitJob job m =
        (None, job, m\<lparr>bqCalls := Suc (Suc (bqCalls m)), bqStarted := bqStarted m @ [(job, b)]\<rparr>)"
    by (simp add: submitJob_def StartJob_def)
  have frame: "fst (snd (submitJob job m)) = job \<and>
      jobs (snd (snd (submitJob job m))) = jobs m \<and>
      dbCalls (snd (snd (submitJob job m))) = dbCalls m"
    if first: "\<forall>b. bqAnswers m (bqCalls m) \<noteq> Inr b"
  proof -
    from first obtain e where e: "bqAnswers m (bqCalls m) = Inl e"
      by (cases "bqAnswers m (bqCalls m)") auto
    show ?thesis
      by (cases "bqAnswers m (Suc (bqCalls m))")
        (simp_all add: submitJob_def StartJob_def e split: sum.split)
  qed
  from retry frame show ?thesis
    by blast
qed

theorem submitJob_retry_frame_witness:
  "getConfig (exJob 1 7 []) = Inr exConf \<and>
   bqAnswers (exModel [exJob 1 7 []] [exTable 7] flakyOnce) 0
     = Inl ''The server encountered a temporary error and could not complete your request'' \<and>
   Contains ''The server encountered a temporary error and could not complete your request''
     ''server encountered a temporary error'' \<and>
   bqAnswers (exModel [exJob 1 7 []] [exTable 7] flakyOnce) (Suc 0)
     = Inr (exBqJob ''proj:US.job_1'') \<and>
   fst (submitJob (exJob 1 7 []) (exModel [exJob 1 7 []] [exTable 7] flakyOnce)) = None \<and>
   BQJobId (fst (snd (submitJob (exJob 1 7 []) (exModel [exJob 1 7 []] [exTable 7] flakyOnce)))) = [] \<and>
   jobs (snd (snd (submitJob (exJob 1 7 []) (exModel [exJob 1 7 []] [exTable 7] flakyOnce))))
     = [exJob 1 7 []] \<and>
   map fst (bqStarted (snd (snd (submitJob (exJob 1 7 []) (exModel [exJob 1 7 []] [exTable 7] flakyOnce)))))
     = [exJob 1 7 []]"
proof -
  have c: "getConfig (exJob 1 7 []) = Inr exConf"
    by (simp add: getConfig_def exJob_def)
  have a0: "bqAnswers (exModel [exJob 1 7 []] [exTable 7] flakyOnce) 0
     = Inl ''The server encountered a temporary error and could not complete your request''"
    by (simp add: exModel_def flakyOnce_def)
  have a1: "bqAnswers (exModel [exJob 1 7 []] [exTable 7] flakyOnce) (Suc 0)
     = Inr (exBqJob ''proj:US.job_1'')"
    by (simp add: exModel_def flakyOnce_def)
  have k: "Contains ''The server encountered a temporary error and could not complete your request''
     ''server encountered a temporary error''"
    by simp
  have z: "bqCalls (exModel [exJob 1 7 []] [exTable 7] flakyOnce) = 0"
    by (simp add: exModel_def)
  from submitJob_retry_frame [of "exJob 1 7 []" exConf
      "exModel [exJob 1 7 []] [exTable 7] flakyOnce"
      "''The server encountered a temporary error and could not complete your request''"
      "exBqJob ''proj:US.job_1''"] c a0 a1 k z
  have "submitJob (exJob 1 7 []) (exModel [exJob 1 7 []] [exTable 7] flakyOnce) =
        (None, exJob 1 7 [],
         (exModel [exJob 1 7 []] [exTable 7] flakyOnce)
           \<lparr>bqCalls := Suc (Suc 0),
            bqStarted := bqStarted (exModel [exJob 1 7 []] [exTable 7] flakyOnce)
              @ [(exJob 1 7 [], exBqJob ''proj:US.job_1'')]\<rparr>)"
    by simp
  then show ?thesis
    using c a0 a1 k by (simp add: exModel_def exJob_def)
qed

subsection \<open>Parents before children\<close>

lemma relateParents_facts:
  assumes "relateParents byId job ps (g, n) = (g', n')"
    and "wfGraph jobName g" and "itemsIn S g" and "item job \<in> S"
    and "\<forall>p parent. map_of byId p = Some parent \<longrightarrow> item parent \<in> S"
  shows "wfGraph jobName g' \<and> itemsIn S g' \<and> nbrRel g parents \<subseteq> nbrRel g' parents \<and>
         (\<forall>p \<in> set ps. \<forall>parent. map_of byId p = Some parent
            \<longrightarrow> (jobName job, jobName parent) \<in> nbrRel g' parents)"
  using assms(1,2,3)
proof (induction ps arbitrary: g n)
  case Nil
  then show ?case by simp
next
  case (Cons pid pids)
  show ?case
  proof (cases "map_of byId pid")
    case None
    with Cons.prems have "relateParents byId job pids (g, n) = (g', n')"
      by simp
    from Cons.IH [OF this Cons.prems(2,3)] None show ?thesis
      by auto
  next
    case (Some parent)
    let ?g = "Relate jobName (Some (item parent)) (item job) g"
    from Some Cons.prems have r: "relateParents byId job pids (?g, Suc n) = (g', n')"
      by simp
    have wf: "wfGraph jobName ?g"
      using Cons.prems(2) by (rule wfGraph_Relate)
    from assms(5) Some have "item parent \<in> S" by blast
    with Cons.prems(3) assms(4) have it: "itemsIn S ?g"
      by (intro itemsIn_Relate) auto
    have new: "(jobName job, jobName parent) \<in> nbrRel ?g parents"
      by (simp add: parents_Relate_Some)
    have mono: "nbrRel g parents \<subseteq> nbrRel ?g parents"
      by (rule parents_Relate_mono)
    from Cons.IH [OF r wf it] new mono Some show ?thesis
      by auto
  qed
qed

lemma graphFromJobs_facts:
  assumes "graphFromJobs byId rest g = Inr g'"
    and "wfGraph jobName g" and "itemsIn (item ` snd ` set byId) g" and "set rest \<subseteq> set byId"
  shows "wfGraph jobName g' \<and> itemsIn (item ` snd ` set byId) g' \<and>
         nbrRel g parents \<subseteq> nbrRel g' parents \<and>
         (\<forall>(k, job) \<in> set rest. \<forall>ps p parent.
            Parents job = Some (Json ps) \<and> p \<in> set ps \<and> map_of byId p = Some parent
              \<longrightarrow> (jobName job, jobName parent) \<in> nbrRel g' parents)"
  using assms
proof (induction rest arbitrary: g)
  case Nil
  then show ?case by simp
next
  case (Cons x rest)
  obtain k job where x: "x = (k, job)" by (cases x)
  let ?S = "item ` snd ` set byId"
  from Cons.prems(4) x have jobS: "item job \<in> ?S"
    by force
  have parS: "\<forall>p parent. map_of byId p = Some parent \<longrightarrow> item parent \<in> ?S"
    by (force dest: map_of_SomeD)
  define ps where "ps = (case Parents job of Some (Json ps) \<Rightarrow> ps | _ \<Rightarrow> [])"
  obtain g1 n1 where rp: "relateParents byId job ps (g, 0) = (g1, n1)"
    by (cases "relateParents byId job ps (g, 0)")
  define g2 where "g2 = (if n1 = 0 then Relate jobName None (item job) g1 else g1)"
  from Cons.prems(1) x rp have rec: "graphFromJobs byId rest g2 = Inr g'"
    by (auto simp: ps_def g2_def split: option.splits json.splits)
  note rf = relateParents_facts [OF rp Cons.prems(2,3) jobS parS]
  have wf2: "wfGraph jobName g2"
    using rf by (simp add: g2_def wfGraph_Relate)
  have it2: "itemsIn ?S g2"
    using rf jobS by (simp add: g2_def itemsIn_Relate)
  have mono2: "nbrRel g1 parents \<subseteq> nbrRel g2 parents"
    by (simp add: g2_def parents_Relate_mono)
  from Cons.prems(4) have rest: "set rest \<subseteq> set byId" by simp
  note IH = Cons.IH [OF rec wf2 it2 rest]
  have here: "(jobName job, jobName parent) \<in> nbrRel g' parents"
    if "Parents job = Some (Json qs)" "p \<in> set qs" "map_of byId p = Some parent" for qs p parent
  proof -
    from that(1) have "qs = ps" by (simp add: ps_def)
    with rf that(2,3) have "(jobName job, jobName parent) \<in> nbrRel g1 parents"
      by blast
    with mono2 IH show ?thesis by blast
  qed
  from IH rf mono2 here show ?case
    by (auto simp: x)
qed

lemma cacheStatus_fields:
  "cacheStatus j = Inr j' \<Longrightarrow> TableId j' = TableId j \<and> Parents j' = Parents j \<and>
     BQJobId j' = BQJobId j \<and> Id j' = Id j"
  by (auto simp: cacheStatus_def split: option.splits json.splits)

lemma unfinishedJobs_Cons:
  assumes "unfinishedJobs r (j # js) c acc = Inr byId"
  shows "\<exists>j' acc'. cacheStatus j = Inr j' \<and>
           unfinishedJobs r js (c + (if errorBearing j then 1 else 0)) acc' = Inr byId \<and>
           (acc' = AList.update (TableId j') j' acc \<or>
            acc' = acc \<and>
              (Contains (error j') bqSchemaErr \<or>
               (state j' = ''DONE'' \<and>
                 (error j' = [] \<or>
                  (maxErrCnt r \<noteq> 0 \<and>
                   (0 < maxErrCnt r \<longrightarrow>
                      c + (if errorBearing j then 1 else 0) \<le> maxErrCnt r))))))"
proof -
  from assms obtain j' where j': "cacheStatus j = Inr j'"
    by (auto split: sum.splits)
  show ?thesis
  proof (cases "Contains (error j') bqSchemaErr")
    case True
    then have "\<not> errorBearing j"
      by (simp add: errorBearing_def j')
    with assms j' True show ?thesis
      by auto
  next
    case False
    then have eb: "errorBearing j \<longleftrightarrow> error j' \<noteq> []"
      by (simp add: errorBearing_def j')
    define c' where "c' = c + (if errorBearing j then 1 else 0)"
    have c': "(if error j' \<noteq> [] then c + 1 else c) = c'"
      by (simp add: c'_def eb)
    show ?thesis
    proof (cases "state j' \<noteq> ''DONE'' \<or>
        (error j' \<noteq> [] \<and> (maxErrCnt r = 0 \<or> maxErrCnt r > 0 \<and> c' > maxErrCnt r))")
      case True
      with assms j' False c'
      have "unfinishedJobs r js c' (AList.update (TableId j') j' acc) = Inr byId"
        by (simp add: Let_def)
      with j' show ?thesis
        unfolding c'_def by blast
    next
      case nb: False
      with assms j' False c' have "unfinishedJobs r js c' acc = Inr byId"
        by (auto simp: Let_def split: if_splits)
      moreover from nb have "state j' = ''DONE'' \<and>
          (error j' = [] \<or> (maxErrCnt r \<noteq> 0 \<and> (0 < maxErrCnt r \<longrightarrow> c' \<le> maxErrCnt r)))"
        by auto
      ultimately show ?thesis
        using j' unfolding c'_def by blast
    qed
  qed
qed

lemma unfinishedJobs_facts:
  assumes "unfinishedJobs r js c acc = Inr byId"
  shows "fst ` set acc \<subseteq> fst ` set byId \<and>
         (\<forall>i < length js. \<exists>pj'. cacheStatus (js ! i) = Inr pj' \<and>
            (Contains (error pj') bqSchemaErr \<or>
             (state pj' = ''DONE'' \<and>
               (error pj' = [] \<or>
                (maxErrCnt r \<noteq> 0 \<and>
                 (0 < maxErrCnt r \<longrightarrow>
                    c + int (length (filter errorBearing (take (Suc i) js))) \<le> maxErrCnt r)))) \<or>
             TableId (js ! i) \<in> fst ` set byId))"
  using assms
proof (induction js arbitrary: c acc)
  case Nil
  then show ?case by simp
next
  case (Cons j js)
  define d :: int where "d = (if errorBearing j then 1 else 0)"
  from unfinishedJobs_Cons [OF Cons.prems, folded d_def]
  obtain j' acc' where j': "cacheStatus j = Inr j'"
    and rec: "unfinishedJobs r js (c + d) acc' = Inr byId"
    and acc': "acc' = AList.update (TableId j') j' acc \<or>
            acc' = acc \<and>
              (Contains (error j') bqSchemaErr \<or>
               (state j' = ''DONE'' \<and>
                 (error j' = [] \<or>
                  (maxErrCnt r \<noteq> 0 \<and> (0 < maxErrCnt r \<longrightarrow> c + d \<le> maxErrCnt r)))))"
    by blast
  note tid = cacheStatus_fields [OF j']
  from Cons.IH [OF rec] have sub: "fst ` set acc' \<subseteq> fst ` set byId"
    and rest: "\<forall>i < length js. \<exists>pj'. cacheStatus (js ! i) = Inr pj' \<and>
            (Contains (error pj') bqSchemaErr \<or>
             (state pj' = ''DONE'' \<and>
               (error pj' = [] \<or>
                (maxErrCnt r \<noteq> 0 \<and>
                 (0 < maxErrCnt r \<longrightarrow>
                    c + d + int (length (filter errorBearing (take (Suc i) js))) \<le> maxErrCnt r)))) \<or>
             TableId (js ! i) \<in> fst ` set byId)"
    by blast+
  from acc' consider (upd) "acc' = AList.update (TableId j') j' acc"
    | (same) "acc' = acc" "Contains (error j') bqSchemaErr \<or>
               (state j' = ''DONE'' \<and>
                 (error j' = [] \<or>
                  (maxErrCnt r \<noteq> 0 \<and> (0 < maxErrCnt r \<longrightarrow> c + d \<le> maxErrCnt r))))"
    by blast
  then have 12: "fst ` set acc \<subseteq> fst ` set byId \<and>
      (Contains (error j') bqSchemaErr \<or>
       (state j' = ''DONE'' \<and>
          (error j' = [] \<or>
             (maxErrCnt r \<noteq> 0 \<and> (0 < maxErrCnt r \<longrightarrow> c + d \<le> maxErrCnt r)))) \<or>
       TableId j \<in> fst ` set byId)"
  proof cases
    case upd
    have "TableId j' = TableId j"
      using tid by blast
    then have "fst ` set acc' = {TableId j} \<union> fst ` set acc"
      unfolding upd by (simp only: dom_update)
    with sub show ?thesis by blast
  next
    case same
    with sub show ?thesis by blast
  qed
  have cnt0: "int (length (filter errorBearing (take (Suc 0) (j # js)))) = d"
    by (simp add: d_def)
  have cntS: "c + int (length (filter errorBearing (take (Suc (Suc i)) (j # js))))
      = c + d + int (length (filter errorBearing (take (Suc i) js)))" for i
    by (simp add: d_def)
  have "\<exists>pj'. cacheStatus ((j # js) ! i) = Inr pj' \<and>
            (Contains (error pj') bqSchemaErr \<or>
             (state pj' = ''DONE'' \<and>
               (error pj' = [] \<or>
                (maxErrCnt r \<noteq> 0 \<and>
                 (0 < maxErrCnt r \<longrightarrow>
                    c + int (length (filter errorBearing (take (Suc i) (j # js)))) \<le> maxErrCnt r)))) \<or>
             TableId ((j # js) ! i) \<in> fst ` set byId)"
    if "i < length (j # js)" for i
  proof (cases i)
    case 0
    show ?thesis
      unfolding 0 cnt0 using 12 j' by auto
  next
    case (Suc i')
    with that have "i' < length js" by simp
    with rest show ?thesis
      unfolding Suc cntS by simp
  qed
  with 12 show ?case
    by blast
qed

lemma started_dbCall: "dbCall m = (e, m') \<Longrightarrow> startedJobs m' = startedJobs m"
  by (auto simp: dbCall_def startedJobs_def)

lemma started_SelectTable: "SelectTable tid m = (x, m') \<Longrightarrow> startedJobs m' = startedJobs m"
  by (auto simp: SelectTable_def dbCall_def startedJobs_def split: option.splits)

lemma started_SaveTable: "SaveTable t m = (x, m') \<Longrightarrow> startedJobs m' = startedJobs m"
  by (auto simp: SaveTable_def dbCall_def startedJobs_def split: option.splits)

lemma started_setRunning: "setRunning t b m = (x, t', m') \<Longrightarrow> startedJobs m' = startedJobs m"
  by (auto simp: setRunning_def Let_def dest: started_SaveTable split: prod.splits)

lemma started_setError: "setError t msg m = (x, t', m') \<Longrightarrow> startedJobs m' = startedJobs m"
  by (auto simp: setError_def Let_def dest: started_SaveTable split: prod.splits)

lemma started_UpdateBQJob: "UpdateBQJob j m = (x, m') \<Longrightarrow> startedJobs m' = startedJobs m"
  by (auto simp: UpdateBQJob_def dbCall_def startedJobs_def split: option.splits)

lemma started_StartJob:
  "StartJob job conf m = (x, m') \<Longrightarrow> startedJobs m' \<subseteq> insert job (startedJobs m)"
  by (auto simp: StartJob_def startedJobs_def split: sum.splits)

lemma started_submitJob:
  "submitJob job m = (x, job', m') \<Longrightarrow> startedJobs m' \<subseteq> insert job (startedJobs m)"
  unfolding submitJob_def
  by (auto split: sum.splits prod.splits if_splits option.splits
      dest!: started_StartJob started_UpdateBQJob)

lemma started_queueImport:
  "queueImport t job m = (x, m') \<Longrightarrow> startedJobs m' \<subseteq> insert job (startedJobs m)"
  by (auto simp: queueImport_def setImportStatus_def startedJobs_def split: if_splits sum.splits)

lemma started_startExternalWait:
  "startExternalWait t (Some job) m = (x, t', m') \<Longrightarrow> startedJobs m' \<subseteq> insert job (startedJobs m)"
  unfolding startExternalWait_def
  by (auto simp: startedJobs_def setRunning_def SaveTable_def dbCall_def Let_def
      split: if_splits prod.splits option.splits; blast)

lemma processReady_step:
  "\<exists>m1. startedJobs m1 \<subseteq> startedJobs m \<union> {j. j = job \<and> BQJobId job = [] \<and> error job = []} \<and>
         (processReady (item job # its) m = processReady its m1 \<or>
          (\<exists>e. processReady (item job # its) m = (Some e, m1)))"
proof (cases "error job \<noteq> [] \<or> BQJobId job \<noteq> []")
  case True
  then have "processReady (item job # its) m = processReady its m \<or>
      (\<exists>e. processReady (item job # its) m = (Some e, m))"
    by auto
  then show ?thesis by blast
next
  case False
  then have ok: "error job = []" "BQJobId job = []" by simp_all
  obtain x ma where st: "SelectTable (TableId job) m = (x, ma)"
    by (cases "SelectTable (TableId job) m")
  note sa = started_SelectTable [OF st]
  show ?thesis
  proof (cases "Type job = ''load''")
    case load: True
    show ?thesis
    proof (cases "GetImportStatus (TableId job) m = ImpNone")
      case False
      with load ok have "processReady (item job # its) m = processReady its m \<or>
          (\<exists>e. processReady (item job # its) m = (Some e, m))"
        by auto
      then show ?thesis by blast
    next
      case none: True
      show ?thesis
      proof (cases x)
        case (Inl e)
        with load none ok st have "processReady (item job # its) m = (Some e, ma)"
          by simp
        with sa show ?thesis by blast
      next
        case (Inr topt)
        show ?thesis
        proof (cases topt)
          case None
          with Inr load none ok st have "processReady (item job # its) m = (Some Panic, ma)"
            by simp
          with sa show ?thesis by blast
        next
          case (Some t)
          show ?thesis
          proof (cases "IsImport t")
            case imp: True
            obtain y t' mb where sr: "setRunning t True ma = (y, t', mb)"
              by (cases "setRunning t True ma") auto
            note sb = started_setRunning [OF sr]
            show ?thesis
            proof (cases y)
              case (Some e)
              with Inr \<open>topt = Some t\<close> load none ok st imp sr
              have "processReady (item job # its) m = (Some e, mb)"
                by simp
              with sa sb show ?thesis by blast
            next
              case None
              obtain z mc where q: "queueImport t' job mb = (z, mc)"
                by (cases "queueImport t' job mb")
              from None Inr \<open>topt = Some t\<close> load none ok st imp sr q
              have "processReady (item job # its) m = processReady its mc"
                by simp
              moreover from started_queueImport [OF q] sa sb ok
              have "startedJobs mc \<subseteq> startedJobs m \<union> {j. j = job \<and> BQJobId job = [] \<and> error job = []}"
                by auto
              ultimately show ?thesis by blast
            qed
          next
            case noimp: False
            show ?thesis
            proof (cases "IsExternal t \<and> \<not> hasExternalWait t ma")
              case True
              obtain z t' mc where w: "startExternalWait t (Some job) ma = (z, t', mc)"
                by (cases "startExternalWait t (Some job) ma") auto
              from True Inr \<open>topt = Some t\<close> load none ok st noimp w
              have "processReady (item job # its) m = processReady its mc"
                by simp
              moreover from started_startExternalWait [OF w] sa ok
              have "startedJobs mc \<subseteq> startedJobs m \<union> {j. j = job \<and> BQJobId job = [] \<and> error job = []}"
                by auto
              ultimately show ?thesis by blast
            next
              case False
              with Inr \<open>topt = Some t\<close> load none ok st noimp
              have "processReady (item job # its) m = processReady its ma"
                by auto
              with sa show ?thesis by blast
            qed
          qed
        qed
      qed
    qed
  next
    case query: False
    show ?thesis
    proof (cases x)
      case (Inl e)
      with query ok st have "processReady (item job # its) m = (Some e, ma)"
        by simp
      with sa show ?thesis by blast
    next
      case (Inr topt)
      show ?thesis
      proof (cases topt)
        case None
        with Inr query ok st have "processReady (item job # its) m = (Some Panic, ma)"
          by simp
        with sa show ?thesis by blast
      next
        case (Some t)
        obtain y t' mb where sr: "setRunning (t\<lparr>Table_Error := []\<rparr>) True ma = (y, t', mb)"
          by (cases "setRunning (t\<lparr>Table_Error := []\<rparr>) True ma") auto
        note sb = started_setRunning [OF sr]
        show ?thesis
        proof (cases y)
          case (Some e)
          with Inr \<open>topt = Some t\<close> query ok st sr
          have "processReady (item job # its) m = (Some e, mb)"
            by simp
          with sa sb show ?thesis by blast
        next
          case None
          obtain z job' mc where sj: "submitJob job mb = (z, job', mc)"
            by (cases "submitJob job mb") auto
          from started_submitJob [OF sj] sa sb ok
          have sc: "startedJobs mc \<subseteq> startedJobs m \<union> {j. j = job \<and> BQJobId job = [] \<and> error job = []}"
            by auto
          show ?thesis
          proof (cases z)
            case zn: None
            have "startedJobs (mc\<lparr>monitors := monitors mc @ [job']\<rparr>) = startedJobs mc"
              by (simp add: startedJobs_def)
            moreover from zn None Inr \<open>topt = Some t\<close> query ok st sr sj
            have "processReady (item job # its) m
                = processReady its (mc\<lparr>monitors := monitors mc @ [job']\<rparr>)"
              by simp
            ultimately show ?thesis using sc by metis
          next
            case (Some e)
            show ?thesis
            proof (cases e)
              case Panic
              with Some None Inr \<open>topt = Some t\<close> query ok st sr sj
              have "processReady (item job # its) m = (Some Panic, mc)"
                by simp
              with sc show ?thesis by blast
            next
              case (Err msg)
              obtain u t'' md where se: "setError t' msg mc = (u, t'', md)"
                by (cases "setError t' msg mc") auto
              from Err Some None Inr \<open>topt = Some t\<close> query ok st sr sj se
              have "processReady (item job # its) m = (Some (Err msg), md)"
                by simp
              with sc started_setError [OF se] show ?thesis by blast
            qed
          qed
        qed
      qed
    qed
  qed
qed

lemma processReady_started:
  "processReady its m = (e, m') \<Longrightarrow>
   startedJobs m' \<subseteq> startedJobs m \<union> {j. item j \<in> set its \<and> BQJobId j = [] \<and> error j = []}"
proof (induction its arbitrary: m)
  case Nil
  then show ?case by simp
next
  case (Cons it its)
  show ?case
  proof (cases it)
    case sentinel
    with Cons.prems show ?thesis by simp
  next
    case (item job)
    from processReady_step [where m = m and job = job and its = its] obtain m1
      where m1: "startedJobs m1 \<subseteq> startedJobs m \<union> {j. j = job \<and> BQJobId job = [] \<and> error job = []}"
        and alt: "processReady (item job # its) m = processReady its m1 \<or>
          (\<exists>e. processReady (item job # its) m = (Some e, m1))"
      by blast
    from alt show ?thesis
    proof
      assume "processReady (item job # its) m = processReady its m1"
      with Cons.prems item have "processReady its m1 = (e, m')" by simp
      from Cons.IH [OF this] m1 item show ?thesis by auto
    next
      assume "\<exists>e. processReady (item job # its) m = (Some e, m1)"
      with Cons.prems item have "m' = m1" by auto
      with m1 item show ?thesis by auto
    qed
  qed
qed

lemma started_loadGraph:
  "loadRunUnfinishedJobGraph r m = (x, m') \<Longrightarrow> startedJobs m' = startedJobs m"
  by (auto simp: loadRunUnfinishedJobGraph_def SelectBQJobsByRunId_def dbCall_def startedJobs_def
      split: prod.splits sum.splits option.splits)

lemma started_UpdateRun: "UpdateRun r m = (x, m') \<Longrightarrow> startedJobs m' = startedJobs m"
  by (auto simp: UpdateRun_def dbCall_def startedJobs_def split: option.splits)

text \<open>
  Claim C1 as stated fails.  In the resumed run, the job of table 9 lists the tables 7
  and 8 as parents; the job of table 7 is done with the error "boom", which the resumed
  run tolerates, and the job of table 8 is done with a schema-mismatch error, which
  \<^verbatim>\<open>loadRunUnfinishedJobGraph\<close> skips.  The cycle submits the job of table 9.
\<close>

theorem processCycle_error_parents_counterexample:
  "fst errorParentsCycle = None \<and>
   map fst (bqStarted (snd (snd errorParentsCycle))) = [exJob 3 9 [7, 8]] \<and>
   map (\<lambda>j. (TableId j, map_sum id error (cacheStatus j))) (jobs errorParents)
     = [(7, Inr ''boom''), (8, Inr ''Provided Schema does not match Table ds.t''), (9, Inr [])]"
  by code_simp

text \<open>
  When the run's error budget is exceeded, the error-bearing parent stays in the graph
  and blocks its children: with the errors "boom" and "bang" against a budget of one, the
  cycle fails on the job of table 8 and starts nothing.
\<close>

lemma processCycle_over_budget:
  "fst overBudgetCycle = Some (Err ''Error in table 8: bang'') \<and>
   bqStarted (snd (snd overBudgetCycle)) = []"
  by code_simp

text \<open>
  Claim C1, amended.  A job that a cycle starts (submits to the warehouse, queues for
  import or registers with an external wait) has an empty warehouse-side id, and for
  every table id listed in its parents, every job of the run for that table has a
  status that parses and either carries the schema-mismatch marker in its error, or is
  in state DONE with an empty error, or is in state DONE with an error that a resumed
  run tolerates: \<^verbatim>\<open>maxErrCnt\<close> is not zero and, when it is positive, the number of
  error-bearing jobs of the run up to and including that job, in the order of their ids
  and not counting schema-mismatch errors, is at most \<^verbatim>\<open>maxErrCnt\<close>.
\<close>

theorem processCycle_parents_finished:
  assumes cyc: "processCycle now r m = (e, r', m')"
    and new: "j \<in> startedJobs m'" "j \<notin> startedJobs m"
    and par: "Parents j = Some (Json ps)" "p \<in> set ps"
    and pj: "pj \<in> set (jobs m)" "RunId pj = Some (Run_Id r)" "TableId pj = p"
  shows "BQJobId j = [] \<and>
         (\<exists>pj'. cacheStatus pj = Inr pj' \<and>
            (Contains (error pj') bqSchemaErr \<or>
             (state pj' = ''DONE'' \<and>
                (error pj' = [] \<or> withinBudget r (runJobs r m) pj))))"
proof -
  obtain x m1 where lg: "loadRunUnfinishedJobGraph r m = (x, m1)"
    by (cases "loadRunUnfinishedJobGraph r m")
  note s1 = started_loadGraph [OF lg]
  have "\<exists>g ready. x = Inr g \<and> (\<exists>g' e'. ReadyItems jobName g = Inr (g', ready, e')) \<and>
      processReady ready m1 = (e, m')"
  proof (cases x)
    case (Inl err)
    with cyc lg have "m' = m1" by (simp add: processCycle_def)
    with s1 new show ?thesis by simp
  next
    case (Inr g)
    show ?thesis
    proof (cases "length g = 0")
      case True
      with Inr cyc lg obtain y where "UpdateRun (r\<lparr>Run_EndTime := Some now\<rparr>) m1 = (y, m')"
        by (auto simp: processCycle_def Let_def split: prod.splits)
      from started_UpdateRun [OF this] s1 new show ?thesis by simp
    next
      case False
      show ?thesis
      proof (cases "ReadyItems jobName g")
        case (Inl err)
        with False Inr cyc lg have "m' = m1" by (simp add: processCycle_def)
        with s1 new show ?thesis by simp
      next
        case ri: (Inr res)
        obtain g' ready e' where res: "res = (g', ready, e')" by (cases res)
        show ?thesis
        proof (cases e')
          case (Some err)
          with ri res False Inr cyc lg have "m' = m1" by (simp add: processCycle_def)
          with s1 new show ?thesis by simp
        next
          case None
          with ri res False Inr cyc lg have "processReady ready m1 = (e, m')"
            by (auto simp: processCycle_def split: prod.splits)
          with ri res Inr show ?thesis by blast
        qed
      qed
    qed
  qed
  then obtain g g' ready e' where x: "x = Inr g"
    and ri: "ReadyItems jobName g = Inr (g', ready, e')"
    and pr: "processReady ready m1 = (e, m')"
    by blast
  from processReady_started [OF pr] new s1 have jr: "item j \<in> set ready"
    and jid: "BQJobId j = []"
    by auto
  from lg x obtain js byId where sel: "SelectBQJobsByRunId (Run_Id r) m = (Inr js, m1)"
    and uj: "unfinishedJobs r js 0 [] = Inr byId"
    and gf: "graphFromJobsById byId = Inr g"
    by (auto simp: loadRunUnfinishedJobGraph_def split: prod.splits sum.splits)
  from sel have js: "js = runJobs r m"
    by (auto simp: SelectBQJobsByRunId_def dbCall_def runJobs_def split: option.splits)
  with pj have pjs: "pj \<in> set js" by (simp add: runJobs_def)
  have wf0: "wfGraph jobName (NewGraph :: BQJob Graph)"
    by (rule wfGraph_NewGraph)
  have it0: "itemsIn (item ` snd ` set byId) (NewGraph :: BQJob Graph)"
    by (simp add: itemsIn_def NewGraph_def getItem_def)
  from gf have gf': "graphFromJobs byId byId NewGraph = Inr g"
    by (simp add: graphFromJobsById_def)
  note gfacts = graphFromJobs_facts [OF gf' wf0 it0 subset_refl]
  then have wfg: "wfGraph jobName g" and itg: "itemsIn (item ` snd ` set byId) g"
    by blast+
  have rel: "(jobName job, jobName parent) \<in> nbrRel g parents"
    if "(k, job) \<in> set byId" "Parents job = Some (Json qs)" "q \<in> set qs"
      "map_of byId q = Some parent" for k job qs q parent
    using gfacts that by blast
  from ri obtain scores where sc: "Scores jobName g = Inr (g', scores)"
    and ro: "readyOf g' scores = Inr ready"
    by (auto simp: ReadyItems_def split: sum.splits prod.splits)
  from readyOf_item [OF ro jr] obtain sn :: scoreName and n
    where n: "getItem g' (snd sn) = Some n" "Item n = item j" "sn \<in> set scores"
    by blast
  have inbyId: "\<exists>k. (k, j) \<in> set byId"
  proof -
    have g'eq: "g' = fst (childSentinel jobName g)"
      by (rule Scores_names(1) [OF sc])
    have "itemsIn (insert sentinel (item ` snd ` set byId)) g'"
      unfolding g'eq by (rule itemsIn_childSentinel [OF wfg itg])
    with n(1) have "Item n \<in> insert sentinel (item ` snd ` set byId)"
      unfolding itemsIn_def by blast
    with n(2) have "item j \<in> item ` snd ` set byId"
      by simp
    then show ?thesis by force
  qed
  then obtain k where kj: "(k, j) \<in> set byId" by blast
  have notin: "TableId pj \<notin> fst ` set byId"
  proof
    assume "TableId pj \<in> fst ` set byId"
    with pj(3) obtain parent where "map_of byId p = Some parent"
      by (metis map_of_eq_None_iff not_None_eq)
    from rel [OF kj par this] have "(jobName j, jobName parent) \<in> nbrRel g parents" .
    with ReadyItems_no_parent [OF wfg ri jr] show False by blast
  qed
  note facts = unfinishedJobs_facts [OF uj]
  have at: "\<exists>pj'. cacheStatus pj = Inr pj' \<and>
            (Contains (error pj') bqSchemaErr \<or>
             (state pj' = ''DONE'' \<and>
               (error pj' = [] \<or>
                (maxErrCnt r \<noteq> 0 \<and>
                 (0 < maxErrCnt r \<longrightarrow>
                    int (length (filter errorBearing (take (Suc i) js))) \<le> maxErrCnt r)))))"
    if "i < length js" "js ! i = pj" for i
    using facts that notin by fastforce
  from pjs obtain i0 where i0: "i0 < length js" "js ! i0 = pj"
    by (auto simp: in_set_conv_nth)
  from at [OF i0] obtain pj' where pj': "cacheStatus pj = Inr pj'"
    and alt: "Contains (error pj') bqSchemaErr \<or>
             (state pj' = ''DONE'' \<and> (error pj' = [] \<or> maxErrCnt r \<noteq> 0))"
    by blast
  have "withinBudget r js pj"
    if "\<not> Contains (error pj') bqSchemaErr" "error pj' \<noteq> []"
    unfolding withinBudget_def
  proof (intro conjI impI allI)
    from alt that show "maxErrCnt r \<noteq> 0" by blast
  next
    fix i
    assume "0 < maxErrCnt r" "i < length js" "js ! i = pj"
    with at [OF this(2,3)] pj' that
    show "int (length (filter errorBearing (take (Suc i) js))) \<le> maxErrCnt r"
      by auto
  qed
  with alt pj' jid show ?thesis
    unfolding js by blast
qed

theorem processCycle_parents_finished_witness:
  "processCycle 5 resumedRun errorParents
     = (fst errorParentsCycle, fst (snd errorParentsCycle), snd (snd errorParentsCycle)) \<and>
   exJob 3 9 [7, 8] \<in> startedJobs (snd (snd errorParentsCycle)) \<and>
   exJob 3 9 [7, 8] \<notin> startedJobs errorParents \<and>
   Parents (exJob 3 9 [7, 8]) = Some (Json [7, 8]) \<and>
   exDone 1 7 ''boom'' \<in> set (jobs errorParents) \<and>
   RunId (exDone 1 7 ''boom'') = Some (Run_Id resumedRun) \<and>
   TableId (exDone 1 7 ''boom'') = 7 \<and>
   BQJobId (exJob 3 9 [7, 8]) = [] \<and>
   map_sum id (\<lambda>j. (state j, error j)) (cacheStatus (exDone 1 7 ''boom''))
     = Inr (''DONE'', ''boom'') \<and>
   withinBudget resumedRun (runJobs resumedRun errorParents) (exDone 1 7 ''boom'')"
proof -
  have cyc: "processCycle 5 resumedRun errorParents
     = (fst errorParentsCycle, fst (snd errorParentsCycle), snd (snd errorParentsCycle))"
    by (simp add: errorParentsCycle_def)
  have "map fst (bqStarted (snd (snd errorParentsCycle))) = [exJob 3 9 [7, 8]]"
    by code_simp
  then have "fst ` set (bqStarted (snd (snd errorParentsCycle))) = {exJob 3 9 [7, 8]}"
    by (metis list.set_map list.simps(15) set_empty2 empty_set)
  then have new: "exJob 3 9 [7, 8] \<in> startedJobs (snd (snd errorParentsCycle))"
    by (simp add: startedJobs_def)
  have old: "exJob 3 9 [7, 8] \<notin> startedJobs errorParents"
    by (simp add: startedJobs_def errorParents_def exModel_def)
  have par: "Parents (exJob 3 9 [7, 8]) = Some (Json [7, 8])" "(7 :: int) \<in> set [7, 8]"
    by (simp_all add: exJob_def)
  have pj: "exDone 1 7 ''boom'' \<in> set (jobs errorParents)"
    "RunId (exDone 1 7 ''boom'') = Some (Run_Id resumedRun)"
    "TableId (exDone 1 7 ''boom'') = 7"
    by (simp_all add: errorParents_def exModel_def exDone_def exJob_def resumedRun_def)
  have cs: "cacheStatus (exDone 1 7 ''boom'')
      = Inr ((exDone 1 7 ''boom'')\<lparr>state := ''DONE'', error := ''boom''\<rparr>)"
    by (simp add: cacheStatus_def exDone_def exJob_def)
  have ns: "\<not> Contains ''boom'' bqSchemaErr"
    by (simp add: bqSchemaErr_def)
  from processCycle_parents_finished [OF cyc new old par pj] cs ns
  have "BQJobId (exJob 3 9 [7, 8]) = [] \<and>
      withinBudget resumedRun (runJobs resumedRun errorParents) (exDone 1 7 ''boom'')"
    by auto
  with cyc new old par pj cs show ?thesis
    by simp
qed

subsection \<open>Two cycles back to back\<close>

text \<open>
  Claim C2, at the failing input.  The run has one query job without parents; the
  warehouse answers the first \<^verbatim>\<open>StartJob\<close> call with the temporary error and accepts
  every later one.  The first cycle returns nil and the warehouse has accepted the job,
  but the catalog still holds an empty warehouse-side id for it; the second cycle
  submits the same job again.
\<close>

theorem processCycle_twice_resubmits:
  "fst cycle1 = None \<and>
   map fst (bqStarted (snd (snd cycle1))) = [exJob 1 7 []] \<and>
   map BQJobId (jobs (snd (snd cycle1))) = [[]] \<and>
   fst cycle2 = None \<and>
   map fst (bqStarted (snd (snd cycle2))) = [exJob 1 7 [], exJob 1 7 []]"
  by code_simp

subsection \<open>Cycle detection\<close>

text \<open>
  Claim C3, at the failing input.  In the graph of \<^verbatim>\<open>Relate(a, b)\<close>, \<^verbatim>\<open>Relate(b, a)\<close>,
  \<^verbatim>\<open>Relate(r, a)\<close> the node \<open>r\<close> has no parents, so the set of ready nodes is not empty.
  No node is without children, so no sentinel is added and \<^verbatim>\<open>Scores\<close> visits nothing:
  \<^verbatim>\<open>ReadyItems\<close> returns no item and the cycle-detected error.  In the run coordinator,
  the cycle of a run with the three jobs of this shape fails with that error before the
  job without parents is submitted.
\<close>

theorem ReadyItems_upstream_of_cycle:
  "map_sum id snd (ReadyItems id upstreamCycle) = Inr ([], Some (Err ''Cycle detected.'')) \<and>
   map_option parents (getItem upstreamCycle ''r'') = Some [] \<and>
   fst upstreamCycleRun = Some (Err ''Cycle detected.'') \<and>
   bqStarted (snd (snd upstreamCycleRun)) = []"
  by code_simp

subsection \<open>External waits\<close>

lemma timeoutFires_externalWaits: "externalWaits (timeoutFires w m) = externalWaits m"
  by (simp add: timeoutFires_def setError_def SaveTable_def dbCall_def Let_def
      split: prod.split option.split)

text \<open>
  Claim C4 as stated fails.  For the external table with a timeout of 3600 seconds, the
  wait starts, nothing cancels it and the timeout fires: the table's error reads
  "External wait timed out after 1h0m0s", but the table still has its entry in the
  external-waits map, and \<^verbatim>\<open>hasExternalWait\<close> returns true.
\<close>

theorem externalWait_timeout_counterexample:
  "fst exWaiting = None \<and>
   hasExternalWait exExternal
     (timeoutFires (last (waiters (snd (snd exWaiting)))) (snd (snd exWaiting))) \<and>
   map Table_Error
     (tables (timeoutFires (last (waiters (snd (snd exWaiting)))) (snd (snd exWaiting))))
     = [''External wait timed out after 1h0m0s'']"
  by (simp add: exWaiting_def exExternal_def exModel_def startExternalWait_def IsExternal_def
      hasExternalWait_def setRunning_def SaveTable_def dbCall_def timeoutFires_def setError_def
      timedOutMsg_def toInt64_def Second_def DurationString_def fmtFrac_def digitsOf.simps Let_def)

text \<open>
  Claim C4, amended.  When \<^verbatim>\<open>startExternalWait\<close> succeeded, the table has an entry and a
  goroutine waits with the table (marked running) and the timeout of \<open>ExternalTmout\<close>
  seconds.  When its timeout fires, the entry stays in the external-waits map
  (\<^verbatim>\<open>hasExternalWait\<close> still returns true); if the catalog call goes through, the
  table's row carries the timed-out message as its error and is not running.  The entry
  goes away when \<^verbatim>\<open>cancelExternalWait\<close> is called.
\<close>

theorem externalWait_timeout:
  assumes "startExternalWait t job m = (None, t', m1)"
  shows "hasExternalWait t m1 \<and>
         last (waiters m1) \<in> set (waiters m1) \<and>
         w_table (last (waiters m1)) = t\<lparr>Running := True\<rparr> \<and>
         w_tmout (last (waiters m1)) = toInt64 (ExternalTmout t * Second) \<and>
         hasExternalWait t (timeoutFires (last (waiters m1)) m1) \<and>
         (dbAnswers m1 (dbCalls m1) = None \<longrightarrow>
            (\<forall>row \<in> set (tables (timeoutFires (last (waiters m1)) m1)).
               Table_Id row = Table_Id t \<longrightarrow>
                 Table_Error row = timedOutMsg (toInt64 (ExternalTmout t * Second)) \<and>
                 \<not> Running row)) \<and>
         \<not> hasExternalWait t (snd (cancelExternalWait t (timeoutFires (last (waiters m1)) m1)))"
  using assms
  apply (simp add: startExternalWait_def split: if_splits prod.splits option.splits)
  apply (auto simp add: setRunning_def SaveTable_def dbCall_def Let_def hasExternalWait_def
      timeoutFires_def setError_def cancelExternalWait_def
      split: option.splits prod.splits if_splits)
  done

theorem externalWait_timeout_witness:
  "startExternalWait exExternal None (exModel [] [exExternal] flakyOnce)
     = (None, fst (snd exWaiting), snd (snd exWaiting)) \<and>
   hasExternalWait exExternal (snd (snd exWaiting)) \<and>
   hasExternalWait exExternal
     (timeoutFires (last (waiters (snd (snd exWaiting)))) (snd (snd exWaiting))) \<and>
   \<not> hasExternalWait exExternal (snd (cancelExternalWait exExternal
     (timeoutFires (last (waiters (snd (snd exWaiting)))) (snd (snd exWaiting)))))"
proof -
  have ok: "fst exWaiting = None"
    by (simp add: exWaiting_def exExternal_def exModel_def startExternalWait_def IsExternal_def
        hasExternalWait_def setRunning_def SaveTable_def dbCall_def Let_def)
  have start: "startExternalWait exExternal None (exModel [] [exExternal] flakyOnce)
     = (None, fst (snd exWaiting), snd (snd exWaiting))"
    using ok by (simp add: exWaiting_def prod_eq_iff)
  from externalWait_timeout [OF start] start show ?thesis
    by blast
qed

subsection \<open>The back-off of the job monitor\<close>

text \<open>Rounding to \<^verbatim>\<open>float64\<close>: the exponent, the nearest value, the error.\<close>

lemma bitlen_rat_bounds:
  assumes "0 < a"
  shows "2 powi (bitlen a - 1) \<le> (of_int a :: rat)" "(of_int a :: rat) < 2 powi (bitlen a)"
proof -
  from bitlen_bounds [OF assms] have 1: "2 ^ nat (bitlen a - 1) \<le> a" and 2: "a < 2 ^ nat (bitlen a)"
    by blast+
  from assms have pos: "1 \<le> bitlen a"
    using bitlen_eq_zero_iff [of a] bitlen_nonneg [of a] by linarith
  from 1 have "(of_int (2 ^ nat (bitlen a - 1)) :: rat) \<le> of_int a"
    by (simp only: of_int_le_iff)
  with pos show "2 powi (bitlen a - 1) \<le> (of_int a :: rat)"
    by (simp add: power_int_def)
  from 2 have "(of_int a :: rat) < of_int (2 ^ nat (bitlen a))"
    by (simp only: of_int_less_iff)
  with pos show "(of_int a :: rat) < 2 powi (bitlen a)"
    by (simp add: power_int_def)
qed

lemma expo_bounds:
  assumes "x \<noteq> 0"
  shows "2 powi (expo x) \<le> \<bar>x\<bar>" "\<bar>x\<bar> < 2 powi (expo x + 1)"
proof -
  obtain a b where q: "quotient_of \<bar>x\<bar> = (a, b)"
    by (cases "quotient_of \<bar>x\<bar>")
  from quotient_of_denom_pos [OF q] have b: "0 < b" .
  from quotient_of_div [OF q] have x: "\<bar>x\<bar> = of_int a / of_int b" .
  from assms have "0 < \<bar>x\<bar>" by simp
  with x b have a: "0 < a"
    by (simp add: zero_less_divide_iff)
  define e where "e = bitlen a - bitlen b"
  note A = bitlen_rat_bounds [OF a] and B = bitlen_rat_bounds [OF b]
  have bpos: "(0 :: rat) < of_int b" using b by simp
  have up: "\<bar>x\<bar> < 2 powi (e + 1)"
  proof -
    have "of_int a < (2 :: rat) powi (bitlen a)" by (rule A(2))
    also have "\<dots> = 2 powi (e + 1) * 2 powi (bitlen b - 1)"
      by (simp add: e_def flip: power_int_add)
    also have "\<dots> \<le> 2 powi (e + 1) * of_int b"
      using B(1) by (intro mult_left_mono) auto
    finally show ?thesis
      unfolding x using bpos by (simp add: pos_divide_less_eq)
  qed
  have lo: "2 powi (e - 1) < \<bar>x\<bar>"
  proof -
    have "2 powi (e - 1) * of_int b < (2 :: rat) powi (e - 1) * 2 powi (bitlen b)"
      using B(2) by (intro mult_strict_left_mono) auto
    also have "\<dots> = 2 powi (bitlen a - 1)"
      by (simp add: e_def flip: power_int_add)
    also have "\<dots> \<le> of_int a" by (rule A(1))
    finally show ?thesis
      unfolding x using bpos by (simp add: pos_less_divide_eq)
  qed
  have ex: "expo x = (if 2 powi e \<le> \<bar>x\<bar> then e else e - 1)"
    by (simp add: expo_def q e_def Let_def)
  show "2 powi (expo x) \<le> \<bar>x\<bar>"
    using lo by (simp add: ex)
  show "\<bar>x\<bar> < 2 powi (expo x + 1)"
    using up by (auto simp: ex)
qed

lemma ulp_pos: "0 < ulp x"
  by (simp add: ulp_def)

lemma roundEven_cases:
  "roundEven q = \<lfloor>q\<rfloor> \<and> q - of_int \<lfloor>q\<rfloor> \<le> 1 / 2 \<or>
   roundEven q = \<lfloor>q\<rfloor> + 1 \<and> 1 / 2 \<le> q - of_int \<lfloor>q\<rfloor>"
  by (auto simp: roundEven_def Let_def)

lemma roundEven_nearest: "\<bar>of_int (roundEven q) - q\<bar> \<le> \<bar>of_int k - q\<bar>"
proof -
  define n where "n = \<lfloor>q\<rfloor>"
  have n: "of_int n \<le> q" "q < of_int n + 1"
    unfolding n_def by linarith+
  from roundEven_cases [of q]
  have r: "roundEven q = n \<and> q - of_int n \<le> 1 / 2 \<or> roundEven q = n + 1 \<and> 1 / 2 \<le> q - of_int n"
    by (simp add: n_def)
  consider "k \<le> n" | "n + 1 \<le> k" by linarith
  then show ?thesis
  proof cases
    case 1
    then have "(of_int k :: rat) \<le> of_int n" by simp
    with n r show ?thesis by auto
  next
    case 2
    then have "(of_int n :: rat) + 1 \<le> of_int k"
      by (metis of_int_1 of_int_add of_int_le_iff)
    with n r show ?thesis by auto
  qed
qed

lemma abs_scale:
  fixes u :: rat
  assumes "0 < u"
  shows "\<bar>a * u - x\<bar> = \<bar>a - x / u\<bar> * u"
proof -
  have "a * u - x = (a - x / u) * u"
    using assms by (simp add: left_diff_distrib)
  then have "\<bar>a * u - x\<bar> = \<bar>a - x / u\<bar> * \<bar>u\<bar>"
    by (simp only: abs_mult)
  with assms show ?thesis by simp
qed

lemma roundEven_half: "\<bar>of_int (roundEven q) - q\<bar> \<le> 1 / 2"
proof -
  have n: "of_int \<lfloor>q\<rfloor> \<le> q" "q < of_int \<lfloor>q\<rfloor> + 1"
    by linarith+
  from roundEven_cases [of q] n show ?thesis
    by auto
qed

lemma float64_nearest_grid: "\<bar>float64 x - x\<bar> \<le> \<bar>of_int k * ulp x - x\<bar>"
proof -
  define u where "u = ulp x"
  have u: "0 < u" by (simp add: u_def ulp_pos)
  have "\<bar>float64 x - x\<bar> = \<bar>of_int (roundEven (x / u)) - x / u\<bar> * u"
    unfolding float64_def u_def [symmetric] by (rule abs_scale [OF u])
  also have "\<dots> \<le> \<bar>of_int k - x / u\<bar> * u"
    using u roundEven_nearest [of "x / u" k] by (intro mult_right_mono) auto
  also have "\<dots> = \<bar>of_int k * u - x\<bar>"
    by (rule abs_scale [OF u, symmetric])
  finally show ?thesis by (simp add: u_def)
qed

lemma float64_0: "float64 0 = 0"
  using float64_nearest_grid [of 0 0] by simp

lemma float64_nonneg: "0 \<le> x \<Longrightarrow> 0 \<le> float64 x"
  using float64_nearest_grid [of x 0] by simp

lemma float64_error: "\<bar>float64 x - x\<bar> \<le> ulp x / 2"
proof -
  define u where "u = ulp x"
  have u: "0 < u" by (simp add: u_def ulp_pos)
  have "\<bar>of_int (roundEven (x / u)) - x / u\<bar> \<le> 1 / 2"
    by (rule roundEven_half)
  then have "\<bar>of_int (roundEven (x / u)) - x / u\<bar> * u \<le> 1 / 2 * u"
    using u by (intro mult_right_mono) auto
  moreover have "\<bar>float64 x - x\<bar> = \<bar>of_int (roundEven (x / u)) - x / u\<bar> * u"
    unfolding float64_def u_def [symmetric] by (rule abs_scale [OF u])
  ultimately show ?thesis by (simp add: u_def)
qed

lemma expo_less:
  assumes "x \<noteq> 0" "\<bar>x\<bar> < 2 powi (E + 1)"
  shows "expo x \<le> E"
proof -
  from expo_bounds(1) [OF assms(1)] assms(2) have "(2 :: rat) powi (expo x) < 2 powi (E + 1)"
    by simp
  have "expo x < E + 1"
  proof (rule ccontr)
    assume "\<not> expo x < E + 1"
    then have "(2 :: rat) powi (E + 1) \<le> 2 powi (expo x)"
      by (intro power_int_increasing) auto
    with \<open>(2 :: rat) powi (expo x) < 2 powi (E + 1)\<close> show False by simp
  qed
  then show ?thesis by simp
qed

lemma float64_error_bound:
  assumes "\<bar>x\<bar> < 2 powi (E + 1)" "- 1022 \<le> E"
  shows "\<bar>float64 x - x\<bar> \<le> 2 powi (E - 53)"
proof (cases "x = 0")
  case True
  then show ?thesis by (simp add: float64_0)
next
  case False
  from expo_less [OF False assms(1)] assms(2) have "max (expo x - 52) (- 1074) \<le> E - 52"
    by simp
  then have "ulp x \<le> 2 powi (E - 52)"
    unfolding ulp_def by (intro power_int_increasing) auto
  moreover have "(2 :: rat) powi (E - 52) = 2 * 2 powi (E - 53)"
    by (simp add: power_int_diff)
  ultimately have "ulp x / 2 \<le> 2 powi (E - 53)"
    by simp
  with float64_error [of x] show ?thesis by linarith
qed

lemma int_on_grid:
  assumes "x \<noteq> 0" "\<bar>x\<bar> < 2 ^ 53"
  shows "\<exists>k. of_int X = of_int k * ulp x"
proof -
  define j where "j = max (expo x - 52) (- 1074)"
  have "\<bar>x\<bar> < 2 powi (52 + 1)"
    using assms(2) by simp
  from expo_less [OF assms(1) this] have j: "j \<le> 0"
    by (simp add: j_def)
  have "(2 :: rat) powi j * 2 ^ nat (- j) = 1"
    using j by (simp add: power_int_def field_simps)
  then have "of_int X = of_int (X * 2 ^ nat (- j)) * (2 :: rat) powi j"
    by (simp add: mult.assoc mult.commute)
  then show ?thesis
    unfolding ulp_def j_def by blast
qed

lemma float64_int_nearest:
  assumes "\<bar>x\<bar> < 2 ^ 53"
  shows "\<bar>float64 x - x\<bar> \<le> \<bar>of_int X - x\<bar>"
proof (cases "x = 0")
  case True
  then show ?thesis by (simp add: float64_0)
next
  case False
  from int_on_grid [OF False assms] obtain k where "of_int X = of_int k * ulp x"
    by blast
  with float64_nearest_grid [of x k] show ?thesis by simp
qed

lemma float64_le_int: "x \<le> of_int X \<Longrightarrow> \<bar>x\<bar> < 2 ^ 53 \<Longrightarrow> float64 x \<le> of_int X"
  using float64_int_nearest [of x X] by linarith

lemma float64_ge_int: "of_int X \<le> x \<Longrightarrow> \<bar>x\<bar> < 2 ^ 53 \<Longrightarrow> of_int X \<le> float64 x"
  using float64_int_nearest [of x X] by linarith

lemma float64_of_int: "\<bar>X\<bar> < 2 ^ 53 \<Longrightarrow> float64 (of_int X) = of_int X"
proof -
  assume "\<bar>X\<bar> < 2 ^ 53"
  then have "\<bar>of_int X :: rat\<bar> < 2 ^ 53"
    by (metis of_int_abs of_int_less_numeral_power_cancel_iff)
  from float64_int_nearest [OF this, of X] show ?thesis by simp
qed

lemma float64_eq_int:
  assumes "x \<noteq> 0" "\<bar>x\<bar> < 2 ^ 53" "2 * \<bar>x - of_int X\<bar> * 2 ^ 53 \<le> \<bar>x\<bar>"
  shows "float64 x = of_int X"
proof -
  define u where "u = ulp x"
  have u: "0 < u" by (simp add: u_def ulp_pos)
  from int_on_grid [OF assms(1,2)] obtain k where k: "of_int X = of_int k * u"
    unfolding u_def by blast
  define r where "r = roundEven (x / u)"
  have f: "float64 x = of_int r * u"
    by (simp add: float64_def r_def u_def)
  have "\<bar>x\<bar> < 2 powi (expo x + 1)"
    by (rule expo_bounds(2) [OF assms(1)])
  also have "\<dots> = 2 ^ 53 * 2 powi (expo x - 52)"
    by (simp add: power_int_diff power_int_add)
  also have "\<dots> \<le> 2 ^ 53 * u"
    unfolding u_def ulp_def by (intro mult_left_mono power_int_increasing) auto
  finally have xu: "\<bar>x\<bar> < 2 ^ 53 * u" .
  from float64_nearest_grid [of x k] k have "\<bar>float64 x - x\<bar> \<le> \<bar>of_int X - x\<bar>"
    by (simp add: u_def)
  moreover have "\<bar>float64 x - of_int X\<bar> \<le> \<bar>float64 x - x\<bar> + \<bar>x - of_int X\<bar>"
    using abs_triangle_ineq [of "float64 x - x" "x - of_int X"] by simp
  moreover have "\<bar>of_int X - x\<bar> = \<bar>x - of_int X\<bar>"
    by (rule abs_minus_commute)
  ultimately have "\<bar>float64 x - of_int X\<bar> \<le> 2 * \<bar>x - of_int X\<bar>"
    by simp
  with assms(3) xu have "\<bar>float64 x - of_int X\<bar> < u"
    by simp
  moreover have "float64 x - of_int X = of_int (r - k) * u"
    by (simp add: f k left_diff_distrib)
  ultimately have "\<bar>of_int (r - k) * u\<bar> < u"
    by simp
  then have "\<bar>of_int (r - k) :: rat\<bar> * u < 1 * u"
    using u by (simp add: abs_mult)
  then have "\<bar>of_int (r - k) :: rat\<bar> < 1"
    using u by (simp only: mult_less_cancel_right_pos)
  then have "\<bar>r - k\<bar> < 1"
    by (metis of_int_abs of_int_less_1_iff)
  then have "r = k" by simp
  with f k show ?thesis by simp
qed

lemma expo_eqI:
  assumes "2 powi e \<le> \<bar>x\<bar>" "\<bar>x\<bar> < 2 powi (e + 1)"
  shows "expo x = e"
proof -
  have "(0 :: rat) < 2 powi e" by simp
  with assms(1) have "0 < \<bar>x\<bar>" by linarith
  then have x: "x \<noteq> 0" by simp
  from expo_less [OF x assms(2)] have 1: "expo x \<le> e" .
  have "e < expo x + 1"
  proof (rule ccontr)
    assume "\<not> e < expo x + 1"
    then have "(2 :: rat) powi (expo x + 1) \<le> 2 powi e"
      by (intro power_int_increasing) auto
    with assms(1) expo_bounds(2) [OF x] show False by simp
  qed
  with 1 show ?thesis by simp
qed

lemma float64_eqI:
  assumes e: "2 powi e \<le> \<bar>x\<bar>" "\<bar>x\<bar> < 2 powi (e + 1)" "- 1022 \<le> e" "e \<le> 52"
    and R: "R * 2 ^ nat (52 - e) = of_int k"
    and near: "2 * \<bar>x - R\<bar> * 2 ^ nat (52 - e) < 1"
  shows "float64 x = R"
proof -
  define u :: rat where "u = 2 powi (e - 52)"
  have u: "0 < u" by (simp add: u_def)
  have ux: "ulp x = u"
    using e(3) by (simp add: ulp_def expo_eqI [OF e(1,2)] u_def)
  have p: "u * 2 ^ nat (52 - e) = 1"
    using e(4) by (simp add: u_def power_int_def field_simps)
  have Rk: "R = of_int k * u"
  proof -
    have "R = R * (u * 2 ^ nat (52 - e))" by (simp add: p)
    also have "\<dots> = (R * 2 ^ nat (52 - e)) * u" by (simp add: mult_ac)
    finally show ?thesis by (simp add: R)
  qed
  have nu: "2 * \<bar>x - R\<bar> < u"
  proof -
    have "2 * \<bar>x - R\<bar> = (2 * \<bar>x - R\<bar> * 2 ^ nat (52 - e)) * u"
      using p by (simp add: mult_ac)
    also have "\<dots> < 1 * u"
      using near u by (intro mult_strict_right_mono)
    finally show ?thesis by simp
  qed
  define r where "r = roundEven (x / u)"
  have f: "float64 x = of_int r * u"
    by (simp add: float64_def r_def ux)
  from float64_nearest_grid [of x k] have "\<bar>float64 x - x\<bar> \<le> \<bar>R - x\<bar>"
    by (simp add: ux Rk)
  moreover have "\<bar>float64 x - R\<bar> \<le> \<bar>float64 x - x\<bar> + \<bar>x - R\<bar>"
    using abs_triangle_ineq [of "float64 x - x" "x - R"] by simp
  moreover have "\<bar>R - x\<bar> = \<bar>x - R\<bar>"
    by (rule abs_minus_commute)
  ultimately have "\<bar>float64 x - R\<bar> \<le> 2 * \<bar>x - R\<bar>"
    by simp
  with nu have "\<bar>float64 x - R\<bar> < u"
    by simp
  moreover have "float64 x - R = of_int (r - k) * u"
    by (simp add: f Rk left_diff_distrib)
  ultimately have "\<bar>of_int (r - k) * u\<bar> < u"
    by simp
  then have "\<bar>of_int (r - k) :: rat\<bar> * u < 1 * u"
    using u by (simp add: abs_mult)
  then have "\<bar>of_int (r - k) :: rat\<bar> < 1"
    using u by (simp only: mult_less_cancel_right_pos)
  then have "\<bar>r - k\<bar> < 1"
    by (metis of_int_abs of_int_less_1_iff)
  then have "r = k" by simp
  with f Rk show ?thesis by simp
qed

lemma factor_value: "backoffGrowthFactor = 9 / 5 + 1 / (5 * 2 ^ 52)"
  unfolding backoffGrowthFactor_def
  by (rule float64_eqI [where e = 0 and k = 8106479329266893]) simp_all

lemma damper_value: "backoffGrowthDamper = 1 / 4"
  unfolding backoffGrowthDamper_def
  by (rule float64_eqI [where e = "- 2" and k = 4503599627370496]) simp_all

lemma maxBackoff_value: "maxBackoff = 15000"
  unfolding maxBackoff_def using float64_of_int [of 15000] by simp

text \<open>The bounds of one \<^verbatim>\<open>pause\<close>, in milliseconds, and of the sequence.\<close>

lemma float64_err15:
  assumes "\<bar>x\<bar> < 32768"
  shows "\<bar>float64 x - x\<bar> \<le> 1 / 2 ^ 39"
proof -
  have "\<bar>x\<bar> < 2 powi (14 + 1)"
    using assms by simp
  from float64_error_bound [OF this] show ?thesis
    by (simp add: power_int_minus_divide)
qed

lemma pause_core_exact:
  fixes n :: int and r :: rat
  assumes n: "0 < n" "n \<le> 750" and r: "0 \<le> r" "r < 1"
  defines "x1 \<equiv> float64 (of_int (20 * n) * backoffGrowthFactor)"
  shows "of_int (27 * n) \<le> float64 (x1 - float64 (float64 (x1 * r) * (1 / 4)))"
proof -
  define v where "v = of_int (20 * n) * backoffGrowthFactor"
  define A :: int where "A = 36 * n"
  define B :: int where "B = 9 * n"
  define C :: int where "C = 27 * n"
  have nr: "(0 :: rat) < of_int n" "(of_int n :: rat) \<le> 750"
    using n by simp_all
  have A: "(of_int A :: rat) = 36 * of_int n" and B: "(of_int B :: rat) = 9 * of_int n"
    and C: "(of_int C :: rat) = 27 * of_int n"
    by (simp_all add: A_def B_def C_def)
  have v: "v = of_int A + of_int n * (4 / 2 ^ 52)"
    by (simp add: v_def factor_value A algebra_simps)
  have v0: "v \<noteq> 0" "\<bar>v\<bar> < 2 ^ 53"
    using nr by (simp_all add: v A)
  have "2 * \<bar>v - of_int A\<bar> * 2 ^ 53 = of_int n * 16"
    using nr by (simp add: v)
  also have "\<dots> \<le> \<bar>v\<bar>"
    using nr by (simp add: v A)
  finally have "2 * \<bar>v - of_int A\<bar> * 2 ^ 53 \<le> \<bar>v\<bar>" .
  with v0 have "float64 v = of_int A"
    by (rule float64_eq_int)
  then have x1: "x1 = of_int A"
    by (simp add: x1_def v_def)
  define t where "t = float64 (x1 * r)"
  have xr: "0 \<le> x1 * r" "x1 * r \<le> of_int A"
    using r nr by (simp_all add: x1 A mult_left_le)
  then have "\<bar>x1 * r\<bar> < 2 ^ 53"
    using nr by (simp add: A)
  with xr(2) have "t \<le> of_int A"
    unfolding t_def by (rule float64_le_int)
  moreover have "0 \<le> t"
    unfolding t_def using xr(1) by (rule float64_nonneg)
  ultimately have t: "0 \<le> t" "t \<le> of_int A"
    by simp_all
  define x3 where "x3 = float64 (t * (1 / 4))"
  have t4: "0 \<le> t * (1 / 4)" "t * (1 / 4) \<le> of_int B"
    using t by (simp_all add: A B)
  then have "\<bar>t * (1 / 4)\<bar> < 2 ^ 53"
    using nr by (simp add: B)
  with t4(2) have "x3 \<le> of_int B"
    unfolding x3_def by (rule float64_le_int)
  moreover have "0 \<le> x3"
    unfolding x3_def using t4(1) by (rule float64_nonneg)
  ultimately have u: "of_int C \<le> x1 - x3" "x1 - x3 \<le> of_int A"
    by (simp_all add: x1 A B C)
  then have "\<bar>x1 - x3\<bar> < 2 ^ 53"
    using nr by (simp add: A C)
  with u(1) have "of_int C \<le> float64 (x1 - x3)"
    by (rule float64_ge_int)
  then show ?thesis
    by (simp add: x3_def t_def C_def)
qed

lemma pause_core:
  fixes m :: int and r :: rat
  assumes m: "0 \<le> m" "m \<le> 15000" and r: "0 \<le> r" "r < 1"
  defines "x1 \<equiv> float64 (of_int m * backoffGrowthFactor)"
  defines "y \<equiv> float64 (x1 - float64 (float64 (x1 * r) * (1 / 4)))"
  shows "0 \<le> y" and "y \<le> 18 / 10 * of_int m + 1 / 2 ^ 37"
    and "of_int ((27 * m) div 20) \<le> y"
proof -
  define e :: rat where "e = 1 / 2 ^ 39"
  have e: "0 < e" "e < 1 / 100000000000"
    by (simp_all add: e_def)
  have err: "\<bar>float64 x - x\<bar> \<le> e" if "\<bar>x\<bar> < 32768" for x
    unfolding e_def using that by (rule float64_err15)
  have mr: "(0 :: rat) \<le> of_int m" "(of_int m :: rat) \<le> 15000"
    using m by simp_all
  define v where "v = of_int m * backoffGrowthFactor"
  have v: "v = 18 / 10 * of_int m + of_int m * (1 / (5 * 2 ^ 52))"
    by (simp add: v_def factor_value algebra_simps)
  have "of_int m * (1 / (5 * 2 ^ 52)) \<le> (15000 :: rat) * (1 / (5 * 2 ^ 52))"
    using mr by (intro mult_right_mono) auto
  also have "\<dots> \<le> e"
    by (simp add: e_def)
  finally have d: "of_int m * (1 / (5 * 2 ^ 52)) \<le> e" .
  have d0: "(0 :: rat) \<le> of_int m * (1 / (5 * 2 ^ 52))"
    using mr by simp
  have vb: "0 \<le> v" "18 / 10 * of_int m \<le> v" "v \<le> 18 / 10 * of_int m + e" "v < 32768"
    using mr d d0 e by (simp_all add: v)
  have x1v: "\<bar>x1 - v\<bar> \<le> e"
    unfolding x1_def v_def [symmetric] using vb by (intro err) auto
  have x10: "0 \<le> x1"
    unfolding x1_def v_def [symmetric] using vb by (intro float64_nonneg)
  from x1v vb have x1b: "18 / 10 * of_int m - e \<le> x1" "x1 \<le> 18 / 10 * of_int m + 2 * e"
    by linarith+
  with mr e have x1s: "x1 < 32767"
    by linarith
  define t where "t = float64 (x1 * r)"
  have xr: "0 \<le> x1 * r" "x1 * r \<le> x1"
    using r x10 by (simp_all add: mult_left_le)
  with x1s have "\<bar>x1 * r\<bar> < 32768" by simp
  from err [OF this] xr have t: "0 \<le> t" "t \<le> x1 + e"
    unfolding t_def using float64_nonneg [OF xr(1)] by linarith+
  define x3 where "x3 = float64 (t * (1 / 4))"
  have t4: "0 \<le> t * (1 / 4)" "t * (1 / 4) \<le> x1 / 4 + e / 4"
    using t by simp_all
  with x1s e have "\<bar>t * (1 / 4)\<bar> < 32768" by simp
  from err [OF this] t4 have x3: "0 \<le> x3" "x3 \<le> x1 / 4 + 2 * e"
    unfolding x3_def using float64_nonneg [OF t4(1)] e by linarith+
  define u where "u = x1 - x3"
  have ub: "3 / 4 * x1 - 2 * e \<le> u" "u \<le> x1"
    using x3 by (simp_all add: u_def)
  with x10 x1s e have "\<bar>u\<bar> < 32768" by simp
  from err [OF this] have yu: "\<bar>y - u\<bar> \<le> e"
    by (simp add: y_def u_def x3_def t_def)
  have e4: "(1 :: rat) / 2 ^ 37 = 4 * e"
    by (simp add: e_def)
  show up: "y \<le> 18 / 10 * of_int m + 1 / 2 ^ 37"
    unfolding e4 using yu ub x1b e by linarith
  have lo: "135 / 100 * of_int m - 4 * e \<le> y"
    using yu ub x1b by linarith
  define Q where "Q = (27 * m) div 20"
  define s where "s = (27 * m) mod 20"
  have qs: "27 * m = 20 * Q + s" "0 \<le> s" "s < 20"
    by (simp_all add: Q_def s_def)
  then have qsr: "27 * (of_int m :: rat) = 20 * of_int Q + of_int s"
    by (metis of_int_add of_int_mult of_int_numeral)
  show Qy: "of_int ((27 * m) div 20) \<le> y"
  proof (cases "s = 0")
    case False
    with qs have "1 \<le> s" by simp
    then have "(1 :: rat) \<le> of_int s" by simp
    with qsr have "of_int Q + 1 / 20 \<le> 135 / 100 * (of_int m :: rat)"
      by simp
    with lo e show ?thesis
      unfolding Q_def [symmetric] by linarith
  next
    case True
    show ?thesis
    proof (cases "m = 0")
      case m0: True
      then have "y = 0"
        by (simp add: y_def x1_def float64_0)
      with m0 show ?thesis by simp
    next
      case False
      from True qs(1) have "m = 20 * (3 * Q - 4 * m)"
        by simp
      then obtain n where n: "m = 20 * n" ..
      with False m have nb: "0 < n" "n \<le> 750"
        by simp_all
      from pause_core_exact [OF nb r] have "of_int (27 * n) \<le> y"
        by (simp add: y_def x1_def n)
      moreover have "(27 * m) div 20 = 27 * n"
        by (simp add: n)
      ultimately show ?thesis by simp
    qed
  qed
  show "0 \<le> y"
  proof -
    from m have "0 \<le> (27 * m) div 20"
      by (simp add: pos_imp_zdiv_nonneg_iff)
    then have "(0 :: rat) \<le> of_int ((27 * m) div 20)"
      by simp
    with Qy show ?thesis by linarith
  qed
qed

lemma toInt64_id: "- (2 ^ 63) \<le> x \<Longrightarrow> x < 2 ^ 63 \<Longrightarrow> toInt64 x = x"
  by (simp add: toInt64_def)

lemma pause_bounds:
  assumes "0 \<le> b" "b \<le> 15 * Second" "0 \<le> rnd" "rnd < 1"
  shows "0 \<le> pause b rnd" "pause b rnd \<le> 15 * Second"
    "pause b rnd mod Millisecond = 0"
    "of_int (pause b rnd div Millisecond)
       \<le> min (18 / 10 * of_int (b div Millisecond)) (15000 :: rat)"
    "min (135 / 100 * of_int (b div Millisecond)) (15000 :: rat) - 1
       < of_int (pause b rnd div Millisecond)"
proof -
  define m where "m = b div 1000000"
  have m: "0 \<le> m" "m \<le> 15000"
    using assms(1,2) by (simp_all add: m_def Second_def pos_imp_zdiv_nonneg_iff)
  define y where "y = float64 (float64 (of_int m * backoffGrowthFactor)
      - float64 (float64 (float64 (of_int m * backoffGrowthFactor) * rnd) * (1 / 4)))"
  note core = pause_core [OF m assms(3,4), folded y_def]
  define R where "R = \<lfloor>min y 15000\<rfloor>"
  have fm: "float64 (of_int m) = of_int m"
    using m by (intro float64_of_int) simp
  have R0: "0 \<le> R"
    using core(1) by (simp add: R_def)
  have "min y 15000 \<le> 15000" by simp
  then have "R \<le> \<lfloor>15000 :: rat\<rfloor>"
    unfolding R_def by (rule floor_mono)
  then have R1: "R \<le> 15000" by simp
  have "\<not> min y 15000 < 0"
    using core(1) by simp
  then have tr: "truncate_rat (min y 15000) = R"
    by (simp only: truncate_rat_def R_def if_False)
  have yn: "float64 (float64 (of_int m * backoffGrowthFactor)
      - float64 (float64 (float64 (of_int m * backoffGrowthFactor) * rnd) / 4)) = y"
    by (simp add: y_def)
  have "pause b rnd = toInt64 (R * 1000000)"
    using assms(1)
    by (simp add: pause_def Let_def quot_def m_def [symmetric] fm damper_value maxBackoff_value
        yn tr Millisecond_def)
  also have "\<dots> = R * 1000000"
    using R0 R1 by (intro toInt64_id) simp_all
  finally have p: "pause b rnd = R * 1000000" .
  show "0 \<le> pause b rnd"
    using R0 by (simp add: p)
  show "pause b rnd \<le> 15 * Second"
    using R1 by (simp add: p Second_def)
  show "pause b rnd mod Millisecond = 0"
    by (simp add: p Millisecond_def)
  have d: "pause b rnd div Millisecond = R"
    by (simp add: p Millisecond_def)
  have bd: "b div Millisecond = m"
    by (simp add: Millisecond_def m_def)
  have Ry: "of_int R \<le> y" "of_int R \<le> (15000 :: rat)"
  proof -
    have "of_int R \<le> min y 15000"
      unfolding R_def by (rule of_int_floor_le)
    then show "of_int R \<le> y" "of_int R \<le> (15000 :: rat)"
      by simp_all
  qed
  have "of_int (5 * R) \<le> 5 * y"
    using Ry(1) by simp
  also have "\<dots> \<le> of_int (9 * m) + 5 / 2 ^ 37"
    using core(2) by simp
  also have "\<dots> < of_int (9 * m + 1)"
    by simp
  finally have "5 * R < 9 * m + 1"
    by (simp only: of_int_less_iff)
  then have "5 * R \<le> 9 * m" by simp
  then have "(of_int (5 * R) :: rat) \<le> of_int (9 * m)"
    by (simp only: of_int_le_iff)
  then have "(of_int R :: rat) \<le> 18 / 10 * of_int m"
    by simp
  with Ry(2) show "of_int (pause b rnd div Millisecond)
      \<le> min (18 / 10 * of_int (b div Millisecond)) (15000 :: rat)"
    unfolding d bd by simp
  define Q where "Q = (27 * m) div 20"
  have "of_int (min Q 15000) \<le> min y 15000"
    using core(3) by (simp add: Q_def min_def)
  then have "min Q 15000 \<le> R"
    unfolding R_def by (simp add: le_floor_iff)
  then have QR: "(of_int (min Q 15000) :: rat) \<le> of_int R"
    by (simp only: of_int_le_iff)
  have "27 * m < 20 * Q + 20"
    unfolding Q_def by (simp add: zdiv_mono_strict) 
  then have "(of_int (27 * m) :: rat) < of_int (20 * Q + 20)"
    by (simp only: of_int_less_iff)
  then have "135 / 100 * (of_int m :: rat) < of_int Q + 1"
    by simp
  then have "min (135 / 100 * of_int m) (15000 :: rat) - 1 < of_int (min Q 15000)"
    by (simp add: min_def)
  with QR show "min (135 / 100 * of_int (b div Millisecond)) (15000 :: rat) - 1
      < of_int (pause b rnd div Millisecond)"
    unfolding d bd by linarith
qed

lemma backoffs_steps:
  assumes "0 \<le> b" "b \<le> 15 * Second" "\<forall>r \<in> set rnds. 0 \<le> r \<and> r < 1" "k < length rnds"
  shows "0 \<le> backoffs b rnds ! k \<and> backoffs b rnds ! k \<le> 15 * Second \<and>
         backoffs b rnds ! k mod Millisecond = 0 \<and>
         of_int (backoffs b rnds ! k div Millisecond)
           \<le> min (18 / 10 * of_int ((b # backoffs b rnds) ! k div Millisecond)) (15000 :: rat) \<and>
         min (135 / 100 * of_int ((b # backoffs b rnds) ! k div Millisecond)) (15000 :: rat) - 1
           < of_int (backoffs b rnds ! k div Millisecond)"
  using assms
proof (induction rnds arbitrary: b k)
  case Nil
  then show ?case by simp
next
  case (Cons r rnds)
  from Cons.prems have r: "0 \<le> r" "r < 1"
    by auto
  note pb = pause_bounds [OF Cons.prems(1,2) r]
  show ?case
  proof (cases k)
    case 0
    with pb show ?thesis by simp
  next
    case (Suc j)
    with Cons.prems have "j < length rnds" "\<forall>r \<in> set rnds. 0 \<le> r \<and> r < 1"
      by auto
    from Cons.IH [OF pb(1,2) this(2) this(1)] Suc show ?thesis
      by simp
  qed
qed

text \<open>\<^verbatim>\<open>pause\<close> at concrete durations and draws.\<close>

lemma pause_eval:
  assumes "quot b 1000000 = m" "float64 (of_int m) = x0"
    and "float64 (x0 * backoffGrowthFactor) = x1" "float64 (x1 * rnd) = t"
    and "float64 (t * (1 / 4)) = x3" "float64 (x1 - x3) = y"
    and "toInt64 (truncate_rat (min y 15000) * Millisecond) = d"
  shows "pause b rnd = d"
  using assms by (simp add: pause_def Let_def damper_value maxBackoff_value)

lemma float64_1000: "float64 (of_int 1000) = 1000"
  using float64_of_int [of 1000] by simp

lemma float64_250: "float64 (of_int 250) = 250"
  using float64_of_int [of 250] by simp

lemma float64_1700: "float64 (of_int 1700) = 1700"
  using float64_of_int [of 1700] by simp

lemma factor_1000: "float64 (1000 * backoffGrowthFactor) = 1800"
  by (rule float64_eqI [where e = 10 and k = 7916483719987200]) (simp_all add: factor_value)

lemma factor_250: "float64 (250 * backoffGrowthFactor) = 450"
  by (rule float64_eqI [where e = 8 and k = 7916483719987200]) (simp_all add: factor_value)

lemma factor_1700: "float64 (1700 * backoffGrowthFactor) = 3060"
  by (rule float64_eqI [where e = 11 and k = 6729011161989120]) (simp_all add: factor_value)

lemma pause_Second_0: "pause Second 0 = 1800 * Millisecond"
proof (rule pause_eval [OF _ float64_1000 factor_1000])
  show "quot Second 1000000 = 1000"
    by (simp add: quot_def Second_def)
  show "float64 (1800 * 0) = 0" "float64 (0 * (1 / 4)) = 0"
    by (simp_all add: float64_0)
  show "float64 (1800 - 0) = 1800"
    using float64_of_int [of 1800] by simp
  show "toInt64 (truncate_rat (min 1800 15000) * Millisecond) = 1800 * Millisecond"
    by (simp add: truncate_rat_def toInt64_def Millisecond_def)
qed

lemma pause_250_0: "pause (250 * Millisecond) 0 = 450 * Millisecond"
proof (rule pause_eval [OF _ float64_250 factor_250])
  show "quot (250 * Millisecond) 1000000 = 250"
    by (simp add: quot_def Millisecond_def)
  show "float64 (450 * 0) = 0" "float64 (0 * (1 / 4)) = 0"
    by (simp_all add: float64_0)
  show "float64 (450 - 0) = 450"
    using float64_of_int [of 450] by simp
  show "toInt64 (truncate_rat (min 450 15000) * Millisecond) = 450 * Millisecond"
    by (simp add: truncate_rat_def toInt64_def Millisecond_def)
qed

lemma pause_Second_draw:
  "pause Second (8006399337547549 / 36028797018963968) = 1700 * Millisecond"
proof (rule pause_eval [OF _ float64_1000 factor_1000])
  show "quot Second 1000000 = 1000"
    by (simp add: quot_def Second_def)
  show "float64 (1800 * (8006399337547549 / 36028797018963968)) = 400"
    by (rule float64_eqI [where e = 8 and k = 7036874417766400]) simp_all
  show "float64 (400 * (1 / 4)) = 100"
    by (rule float64_eqI [where e = 6 and k = 7036874417766400]) simp_all
  show "float64 (1800 - 100) = 1700"
    by (rule float64_eqI [where e = 10 and k = 7476679068876800]) simp_all
  show "toInt64 (truncate_rat (min 1700 15000) * Millisecond) = 1700 * Millisecond"
    by (simp add: truncate_rat_def toInt64_def Millisecond_def)
qed

lemma pause_1700_half: "pause (1700 * Millisecond) (1 / 2) = 2677 * Millisecond"
proof (rule pause_eval [OF _ float64_1700 factor_1700])
  show "quot (1700 * Millisecond) 1000000 = 1700"
    by (simp add: quot_def Millisecond_def)
  show "float64 (3060 * (1 / 2)) = 1530"
    by (rule float64_eqI [where e = 10 and k = 6729011161989120]) simp_all
  show "float64 (1530 * (1 / 4)) = 765 / 2"
    by (rule float64_eqI [where e = 8 and k = 6729011161989120]) simp_all
  show "float64 (3060 - 765 / 2) = 5355 / 2"
    by (rule float64_eqI [where e = 11 and k = 5887884766740480]) simp_all
  have "\<lfloor>5355 / 2 :: rat\<rfloor> = 2677"
    by (simp add: floor_eq_iff)
  then show "toInt64 (truncate_rat (min (5355 / 2) 15000) * Millisecond) = 2677 * Millisecond"
    by (simp add: truncate_rat_def toInt64_def Millisecond_def)
qed

text \<open>
  Claim C5 as stated fails: the back-off does not start from 250 ms.  With a first random
  draw of 0 the first interval \<^verbatim>\<open>waitForJob\<close> sleeps is 1800 ms; a back-off with base
  250 ms would sleep 450 ms.
\<close>

theorem waitForJob_base_counterexample:
  "waitIntervals [0] = [1800 * Millisecond] \<and>
   backoffs (250 * Millisecond) [0] = [450 * Millisecond] \<and>
   waitIntervals [0] \<noteq> backoffs (250 * Millisecond) [0]"
proof -
  have a: "waitIntervals [0] = [1800 * Millisecond]"
    by (simp only: waitIntervals_def backoffs.simps pause_Second_0)
  have b: "backoffs (250 * Millisecond) [0] = [450 * Millisecond]"
    by (simp only: backoffs.simps pause_250_0)
  have "1800 * Millisecond \<noteq> 450 * Millisecond"
    by (simp add: Millisecond_def)
  with a b show ?thesis
    by simp
qed

text \<open>
  Claim C5, amended: the back-off starts from one second.  For random draws in \<open>[0, 1)\<close>,
  every interval is a whole number of milliseconds between 0 and 15 s; in milliseconds
  it is at most 1.8 times the previous interval (the first: one second) and more than
  1.35 times the previous interval minus one, both capped at 15000; the first interval
  lies between 1350 ms and 1800 ms.
\<close>

theorem waitForJob_backoff:
  assumes "\<forall>r \<in> set rnds. 0 \<le> r \<and> r < 1"
  shows "(\<forall>k < length rnds.
            0 \<le> waitIntervals rnds ! k \<and> waitIntervals rnds ! k \<le> 15 * Second \<and>
            waitIntervals rnds ! k mod Millisecond = 0 \<and>
            of_int (waitIntervals rnds ! k div Millisecond)
              \<le> min (18 / 10 * of_int ((Second # waitIntervals rnds) ! k div Millisecond))
                    (15000 :: rat) \<and>
            min (135 / 100 * of_int ((Second # waitIntervals rnds) ! k div Millisecond))
                (15000 :: rat) - 1
              < of_int (waitIntervals rnds ! k div Millisecond)) \<and>
         (rnds \<noteq> [] \<longrightarrow>
            1350 * Millisecond \<le> hd (waitIntervals rnds) \<and>
            hd (waitIntervals rnds) \<le> 1800 * Millisecond)"
proof (intro conjI allI impI)
  fix k
  assume k: "k < length rnds"
  have s0: "0 \<le> Second" "Second \<le> 15 * Second"
    by (simp_all add: Second_def)
  note st = backoffs_steps [OF s0 assms k, folded waitIntervals_def]
  from st show "0 \<le> waitIntervals rnds ! k" by blast
  from st show "waitIntervals rnds ! k \<le> 15 * Second" by blast
  from st show "waitIntervals rnds ! k mod Millisecond = 0" by blast
  from st show "of_int (waitIntervals rnds ! k div Millisecond)
      \<le> min (18 / 10 * of_int ((Second # waitIntervals rnds) ! k div Millisecond)) (15000 :: rat)"
    by blast
  from st show "min (135 / 100 * of_int ((Second # waitIntervals rnds) ! k div Millisecond))
      (15000 :: rat) - 1 < of_int (waitIntervals rnds ! k div Millisecond)"
    by blast
next
  assume ne: "rnds \<noteq> []"
  then obtain r rs where rnds: "rnds = r # rs"
    by (cases rnds) auto
  with assms have r: "0 \<le> r" "r < 1"
    by auto
  have s0: "0 \<le> Second" "Second \<le> 15 * Second"
    by (simp_all add: Second_def)
  note pb = pause_bounds [OF s0 r]
  have hd: "hd (waitIntervals rnds) = pause Second r"
    by (simp add: rnds waitIntervals_def)
  have sd: "Second div Millisecond = 1000"
    by (simp add: Second_def Millisecond_def)
  from pb(4) have "pause Second r div Millisecond \<le> 1800"
    unfolding sd by simp
  moreover from pb(5) have "1349 < pause Second r div Millisecond"
    unfolding sd by simp
  moreover have "pause Second r = (pause Second r div Millisecond) * Millisecond"
    using pb(3) by (metis add.right_neutral div_mult_mod_eq)
  ultimately have "1350 * Millisecond \<le> pause Second r" "pause Second r \<le> 1800 * Millisecond"
    by (simp_all add: Millisecond_def)
  then show "1350 * Millisecond \<le> hd (waitIntervals rnds)"
    and "hd (waitIntervals rnds) \<le> 1800 * Millisecond"
    by (simp_all add: hd)
qed

theorem waitForJob_backoff_witness:
  "set [8006399337547549 / 36028797018963968, 1 / 2 :: rat] \<subseteq> {r. 0 \<le> r \<and> r < 1} \<and>
   waitIntervals [8006399337547549 / 36028797018963968, 1 / 2]
     = [1700 * Millisecond, 2677 * Millisecond] \<and>
   1350 * Millisecond \<le> hd (waitIntervals [8006399337547549 / 36028797018963968, 1 / 2]) \<and>
   hd (waitIntervals [8006399337547549 / 36028797018963968, 1 / 2]) \<le> 1800 * Millisecond"
proof -
  have h: "\<forall>r \<in> set [8006399337547549 / 36028797018963968, 1 / 2 :: rat]. 0 \<le> r \<and> r < 1"
    by simp
  have v: "waitIntervals [8006399337547549 / 36028797018963968, 1 / 2]
      = [1700 * Millisecond, 2677 * Millisecond]"
    by (simp only: waitIntervals_def backoffs.simps pause_Second_draw pause_1700_half)
  have h': "set [8006399337547549 / 36028797018963968, 1 / 2 :: rat] \<subseteq> {r. 0 \<le> r \<and> r < 1}"
    by simp
  from waitForJob_backoff [OF h] h' v show ?thesis
    by simp
qed

subsection \<open>Encrypting and decrypting\<close>

lemma padRight_returns:
  assumes "p \<noteq> []"
  shows "\<exists>r. padRight s p l = Some r \<and> length r = l"
proof (induction "Suc l - length s" arbitrary: s rule: less_induct)
  case less
  show ?case
  proof (cases "l < length (s @ p)")
    case True
    then show ?thesis
      by (subst padRight.simps) (simp add: Let_def)
  next
    case False
    with assms have "Suc l - length (s @ p) < Suc l - length s"
      by (cases p) auto
    from less [OF this] obtain r where "padRight (s @ p) p l = Some r" "length r = l"
      by blast
    with False show ?thesis
      by (subst padRight.simps) (simp add: Let_def)
  qed
qed

lemma deriveKey_ok: "\<exists>key. deriveKey secret = Some (Inr key) \<and> length key = 32"
proof -
  have "keyPad \<noteq> []" by (simp add: keyPad_def)
  from padRight_returns [OF this, of secret 32]
  obtain r where "padRight secret keyPad 32 = Some r" "length r = 32" by blast
  then show ?thesis by (simp add: deriveKey_def)
qed

text \<open>
  Claim C9.  For every plaintext and every secret of at least 8 bytes,
  \<^verbatim>\<open>EncryptString\<close> succeeds and \<^verbatim>\<open>DecryptString\<close> of its result with the same secret
  returns the plaintext, provided the library keeps its contracts: the random source
  delivers the nonce, opening undoes sealing under a 32-byte key and a nonce of the
  right size, and decoding undoes encoding.
\<close>

theorem EncryptString_DecryptString:
  assumes "8 \<le> length secret"
    and "ReadFull lib (NonceSize lib) = Some nonce" and "length nonce = NonceSize lib"
    and "\<forall>k n p. length k = 32 \<and> length n = NonceSize lib
           \<longrightarrow> Open lib k n (Seal lib k n p) = Some p"
    and "\<forall>bs. DecodeString lib (EncodeToString lib bs) = Some bs"
  shows "\<exists>c. EncryptString lib s secret = Some (Inr c) \<and>
              DecryptString lib c secret = Some (Inr s)"
proof -
  from deriveKey_ok obtain key where key: "deriveKey secret = Some (Inr key)" "length key = 32"
    by blast
  have nc: "NewCipher key = None"
    by (simp add: NewCipher_def key)
  let ?c = "EncodeToString lib (nonce @ Seal lib key nonce s)"
  have enc: "EncryptString lib s secret = Some (Inr ?c)"
    using assms(1,2) by (simp add: EncryptString_def key nc)
  have "Open lib key nonce (Seal lib key nonce s) = Some s"
    using assms(3,4) key(2) by blast
  then have dec: "DecryptString lib ?c secret = Some (Inr s)"
    using assms(3,5) by (simp add: DecryptString_def key nc)
  from enc dec show ?thesis by blast
qed

theorem EncryptString_DecryptString_witness:
  "8 \<le> length ''password'' \<and>
   (\<exists>c. EncryptString toyLib ''hello'' ''password'' = Some (Inr c) \<and>
        DecryptString toyLib c ''password'' = Some (Inr ''hello''))"
proof -
  have "\<exists>c. EncryptString toyLib ''hello'' ''password'' = Some (Inr c) \<and>
        DecryptString toyLib c ''password'' = Some (Inr ''hello'')"
    by (rule EncryptString_DecryptString [where nonce = "replicate 12 (CHR ''r'')"])
      (simp_all add: toyLib_def)
  then show ?thesis by simp
qed

end
